theory Spec2Isabelle
  imports Main "HOL-Library.Sublist"
begin

section \<open>Strings as Python sees them\<close>

text \<open>
  A Python \<^verbatim>\<open>str\<close> is a sequence of code points. The model takes the code points
  below 256 (one \<^typ>\<open>char\<close> each), on which \<^verbatim>\<open>str.lower\<close>, \<^verbatim>\<open>str.isspace\<close> and
  the classes \<^verbatim>\<open>\d\<close>, \<^verbatim>\<open>\s\<close> of the \<^verbatim>\<open>re\<close> module are the functions below.
\<close>

definition lower_char :: "char \<Rightarrow> char" where
  "lower_char c =
     (let n = (of_char c :: nat)
      in if (65 \<le> n \<and> n \<le> 90) \<or> (192 \<le> n \<and> n \<le> 222 \<and> n \<noteq> 215)
         then char_of (n + 32) else c)"

definition str_lower :: "string \<Rightarrow> string" where
  "str_lower s = map lower_char s"

text \<open>The operator \<^verbatim>\<open>sub in s\<close> on strings: \<open>sub\<close> occurs in \<open>s\<close> as a contiguous block.\<close>

fun contains :: "string \<Rightarrow> string \<Rightarrow> bool" where
  "contains sub [] = (sub = [])"
| "contains sub (c # cs) = (prefix sub (c # cs) \<or> contains sub cs)"

definition is_digit :: "char \<Rightarrow> bool" where
  "is_digit c = (let n = (of_char c :: nat) in 48 \<le> n \<and> n \<le> 57)"

definition is_space :: "char \<Rightarrow> bool" where
  "is_space c =
     (let n = (of_char c :: nat)
      in (9 \<le> n \<and> n \<le> 13) \<or> (28 \<le> n \<and> n \<le> 32) \<or> n = 133 \<or> n = 160)"

text \<open>\<^verbatim>\<open>sep.join(parts)\<close>.\<close>

fun join :: "string \<Rightarrow> string list \<Rightarrow> string" where
  "join sep [] = []"
| "join sep [p] = p"
| "join sep (p # q # ps) = p @ sep @ join sep (q # ps)"

text \<open>
  \<^verbatim>\<open>s.replace(old, new)\<close>: every occurrence of \<open>old\<close>, found from the left and not
  overlapping the one before, is replaced. The counter is the number of characters of
  the occurrence just replaced that are still to be skipped.
\<close>

fun replace_go :: "string \<Rightarrow> string \<Rightarrow> nat \<Rightarrow> string \<Rightarrow> string" where
  "replace_go old new k [] = (if old = [] then new else [])"
| "replace_go old new (Suc k) (c # cs) = replace_go old new k cs"
| "replace_go old new 0 (c # cs) =
     (if old = [] then new @ c # replace_go old new 0 cs
      else if prefix old (c # cs) then new @ replace_go old new (length old - 1) cs
      else c # replace_go old new 0 cs)"

definition replace :: "string \<Rightarrow> string \<Rightarrow> string \<Rightarrow> string" where
  "replace s old new = replace_go old new 0 s"

section \<open>The generator object and its tables\<close>

text \<open>
  The dictionaries of \<^verbatim>\<open>QueryGenerator.__init__\<close>. A Python dictionary iterates in
  insertion order and the loops of the extractors depend on it, so each dictionary is
  an association list in the order the source writes it.
\<close>

record metric_info =
  field :: string
  agg :: string
  description :: string

record table_info =
  columns :: "string list"
  table_alias :: string
  table_description :: string

record QueryGenerator =
  openai_api_key :: "string option"
  schema :: "(string \<times> table_info) list"
  metrics :: "(string \<times> metric_info) list"
  aggregations :: "(string \<times> string) list"
  time_patterns :: "(string \<times> string) list"
  comparisons :: "(string \<times> string) list"
  sort_patterns :: "(string \<times> string) list"
  field_mappings :: "(string \<times> string) list"

definition sales_metric :: metric_info where
  "sales_metric = \<lparr>field = ''s.total_amount'', agg = ''SUM'', description = ''total sales amount''\<rparr>"

definition revenue_metric :: metric_info where
  "revenue_metric = \<lparr>field = ''s.total_amount'', agg = ''SUM'', description = ''total revenue''\<rparr>"

definition quantity_metric :: metric_info where
  "quantity_metric = \<lparr>field = ''s.quantity'', agg = ''SUM'', description = ''total units sold''\<rparr>"

definition average_sale_metric :: metric_info where
  "average_sale_metric =
     \<lparr>field = ''s.total_amount'', agg = ''AVG'', description = ''average sale amount''\<rparr>"

definition customer_count_metric :: metric_info where
  "customer_count_metric =
     \<lparr>field = ''c.id'', agg = ''COUNT DISTINCT'', description = ''number of unique customers''\<rparr>"

definition order_count_metric :: metric_info where
  "order_count_metric = \<lparr>field = ''s.id'', agg = ''COUNT'', description = ''number of orders''\<rparr>"

definition init :: "string option \<Rightarrow> QueryGenerator" where
  "init key = \<lparr>
     openai_api_key = key,
     schema = [
       (''sales'', \<lparr>columns = [''id'', ''date'', ''product_id'', ''customer_id'', ''quantity'',
                                ''total_amount''],
                    table_alias = ''s'', table_description = ''sales transactions''\<rparr>),
       (''products'', \<lparr>columns = [''id'', ''name'', ''category'', ''price'', ''stock''],
                       table_alias = ''p'', table_description = ''product information''\<rparr>),
       (''customers'', \<lparr>columns = [''id'', ''name'', ''email'', ''region''],
                        table_alias = ''c'', table_description = ''customer information''\<rparr>)],
     metrics = [
       (''sales'', sales_metric),
       (''revenue'', revenue_metric),
       (''quantity'', quantity_metric),
       (''average_sale'', average_sale_metric),
       (''customer_count'', customer_count_metric),
       (''order_count'', order_count_metric)],
     aggregations = [
       (''total'', ''SUM''),
       (''average'', ''AVG''),
       (''count'', ''COUNT''),
       (''minimum'', ''MIN''),
       (''maximum'', ''MAX''),
       (''sum'', ''SUM''),
       (''avg'', ''AVG''),
       (''min'', ''MIN''),
       (''max'', ''MAX'')],
     time_patterns = [
       (''today'', ''date(s.date) = date('' @ [CHR 0x27] @ ''now'' @ [CHR 0x27] @ '')''),
       (''yesterday'', ''date(s.date) = date('' @ [CHR 0x27] @ ''now'' @ [CHR 0x27] @ '', ''
          @ [CHR 0x27] @ ''-1 day'' @ [CHR 0x27] @ '')''),
       (''this week'', ''strftime('' @ [CHR 0x27] @ ''%Y-%W'' @ [CHR 0x27] @ '', s.date) = strftime(''
          @ [CHR 0x27] @ ''%Y-%W'' @ [CHR 0x27] @ '', '' @ [CHR 0x27] @ ''now'' @ [CHR 0x27] @ '')''),
       (''last week'', ''strftime('' @ [CHR 0x27] @ ''%Y-%W'' @ [CHR 0x27] @ '', s.date) = strftime(''
          @ [CHR 0x27] @ ''%Y-%W'' @ [CHR 0x27] @ '', '' @ [CHR 0x27] @ ''now'' @ [CHR 0x27] @ '', ''
          @ [CHR 0x27] @ ''-7 days'' @ [CHR 0x27] @ '')''),
       (''this month'', ''strftime('' @ [CHR 0x27] @ ''%Y-%m'' @ [CHR 0x27] @ '', s.date) = strftime(''
          @ [CHR 0x27] @ ''%Y-%m'' @ [CHR 0x27] @ '', '' @ [CHR 0x27] @ ''now'' @ [CHR 0x27] @ '')''),
       (''last month'', ''strftime('' @ [CHR 0x27] @ ''%Y-%m'' @ [CHR 0x27] @ '', s.date) = strftime(''
          @ [CHR 0x27] @ ''%Y-%m'' @ [CHR 0x27] @ '', '' @ [CHR 0x27] @ ''now'' @ [CHR 0x27] @ '', ''
          @ [CHR 0x27] @ ''-1 month'' @ [CHR 0x27] @ '')''),
       (''this year'', ''strftime('' @ [CHR 0x27] @ ''%Y'' @ [CHR 0x27] @ '', s.date) = strftime(''
          @ [CHR 0x27] @ ''%Y'' @ [CHR 0x27] @ '', '' @ [CHR 0x27] @ ''now'' @ [CHR 0x27] @ '')''),
       (''last year'', ''strftime('' @ [CHR 0x27] @ ''%Y'' @ [CHR 0x27] @ '', s.date) = strftime(''
          @ [CHR 0x27] @ ''%Y'' @ [CHR 0x27] @ '', '' @ [CHR 0x27] @ ''now'' @ [CHR 0x27] @ '', ''
          @ [CHR 0x27] @ ''-1 year'' @ [CHR 0x27] @ '')'')],
     comparisons = [
       (''greater than'', ''>''),
       (''more than'', ''>''),
       (''higher than'', ''>''),
       (''less than'', ''<''),
       (''lower than'', ''<''),
       (''equal to'', ''=''),
       (''equals'', ''=''),
       (''not equal to'', ''!=''),
       (''at least'', ''>=''),
       (''greater than or equal to'', ''>=''),
       (''at most'', ''<=''),
       (''less than or equal to'', ''<='')],
     sort_patterns = [
       (''ascending'', ''ASC''),
       (''descending'', ''DESC''),
       (''increasing'', ''ASC''),
       (''decreasing'', ''DESC''),
       (''highest'', ''DESC''),
       (''lowest'', ''ASC''),
       (''most'', ''DESC''),
       (''least'', ''ASC'')],
     field_mappings = [
       (''sales'', ''s.total_amount''),
       (''revenue'', ''s.total_amount''),
       (''amount'', ''s.total_amount''),
       (''quantity'', ''s.quantity''),
       (''units'', ''s.quantity''),
       (''price'', ''p.price''),
       (''stock'', ''p.stock''),
       (''region'', ''c.region''),
       (''customer'', ''c.name''),
       (''product'', ''p.name''),
       (''category'', ''p.category''),
       (''date'', ''s.date'')]\<rparr>"

section \<open>Sorting\<close>

text \<open>
  \<^verbatim>\<open>_extract_sorting\<close>: the loop over \<^verbatim>\<open>self.sort_patterns.items()\<close> stops at the
  first key that occurs in the lower-cased question (\<^verbatim>\<open>break\<close>).
\<close>

fun sort_direction_loop :: "(string \<times> string) list \<Rightarrow> string \<Rightarrow> string \<Rightarrow> string" where
  "sort_direction_loop [] query_lower direction = direction"
| "sort_direction_loop ((skey, sdir) # rest) query_lower direction =
     (if contains skey query_lower then sdir
      else sort_direction_loop rest query_lower direction)"

definition extract_sorting :: "QueryGenerator \<Rightarrow> string \<Rightarrow> string \<times> string" where
  "extract_sorting self query =
     (let query_lower = str_lower query;
          direction = sort_direction_loop (sort_patterns self) query_lower ''DESC'';
          sort_field =
            (if contains ''quantity'' query_lower \<or> contains ''units'' query_lower then ''quantity''
             else if contains ''average'' query_lower \<or> contains ''avg'' query_lower then ''average''
             else ''total'')
      in (sort_field, direction))"

section \<open>Regular expressions\<close>

text \<open>
  The patterns handed to \<^verbatim>\<open>re.search\<close> and \<^verbatim>\<open>re.finditer\<close>, as syntax trees, and the
  backtracking matcher of the \<^verbatim>\<open>re\<close> module: \<open>run r (rest, groups)\<close> lists, in the order
  in which backtracking tries them, the ways in which \<open>r\<close> matches a prefix of \<open>rest\<close>,
  each as the text left over and the groups captured. The first entry is the match
  Python reports. \<open>LitI\<close> is a literal under \<^verbatim>\<open>re.IGNORECASE\<close>, \<open>Dot\<close> is \<^verbatim>\<open>.\<close>
  without \<^verbatim>\<open>re.DOTALL\<close>, \<open>Look\<close> is a lookahead \<^verbatim>\<open>(?=...)\<close> and \<open>Eos\<close> is \<^verbatim>\<open>$\<close>.
\<close>

datatype cclass = Lit char | LitI char | Digit | Space | Dot

fun accepts :: "cclass \<Rightarrow> char \<Rightarrow> bool" where
  "accepts (Lit c) x = (x = c)"
| "accepts (LitI c) x = (lower_char x = lower_char c)"
| "accepts Digit x = is_digit x"
| "accepts Space x = is_space x"
| "accepts Dot x = (x \<noteq> CHR 0x0A)"

datatype regex =
    Sym cclass
  | Eps
  | Seq regex regex
  | Alt regex regex
  | Star regex
  | LazyStar regex
  | Group nat regex
  | Look regex
  | Eos

type_synonym mstate = "string \<times> (nat \<rightharpoonup> string)"

text \<open>
  A starred pattern is iterated at most once per character left, and an iteration
  that consumes nothing is not repeated. The greedy star tries one more iteration
  before stopping, the lazy star stops before trying one more.
\<close>

primrec star_greedy :: "(mstate \<Rightarrow> mstate list) \<Rightarrow> nat \<Rightarrow> mstate \<Rightarrow> mstate list" where
  "star_greedy f 0 = (\<lambda>st. [st])"
| "star_greedy f (Suc k) =
     (\<lambda>st. concat (map (\<lambda>st'. if length (fst st') < length (fst st)
                                then star_greedy f k st' else [])
                         (f st)) @ [st])"

primrec star_lazy :: "(mstate \<Rightarrow> mstate list) \<Rightarrow> nat \<Rightarrow> mstate \<Rightarrow> mstate list" where
  "star_lazy f 0 = (\<lambda>st. [st])"
| "star_lazy f (Suc k) =
     (\<lambda>st. st # concat (map (\<lambda>st'. if length (fst st') < length (fst st)
                                     then star_lazy f k st' else [])
                              (f st)))"

primrec run :: "regex \<Rightarrow> mstate \<Rightarrow> mstate list" where
  "run (Sym cl) st =
     (case fst st of [] \<Rightarrow> [] | x # xs \<Rightarrow> if accepts cl x then [(xs, snd st)] else [])"
| "run Eps st = [st]"
| "run (Seq a b) st = concat (map (run b) (run a st))"
| "run (Alt a b) st = run a st @ run b st"
| "run (Star a) st = star_greedy (run a) (length (fst st)) st"
| "run (LazyStar a) st = star_lazy (run a) (length (fst st)) st"
| "run (Group n a) st =
     map (\<lambda>st'. (fst st', (snd st')(n \<mapsto> take (length (fst st) - length (fst st')) (fst st))))
         (run a st)"
| "run (Look a) st = (if run a st = [] then [] else [st])"
| "run Eos st = (if fst st = [] \<or> fst st = [CHR 0x0A] then [st] else [])"

fun lit :: "string \<Rightarrow> regex" where
  "lit [] = Eps"
| "lit (c # cs) = Seq (Sym (Lit c)) (lit cs)"

fun lit_i :: "string \<Rightarrow> regex" where
  "lit_i [] = Eps"
| "lit_i (c # cs) = Seq (Sym (LitI c)) (lit_i cs)"

definition rep1 :: "regex \<Rightarrow> regex" where
  "rep1 r = Seq r (Star r)"

definition opt :: "regex \<Rightarrow> regex" where
  "opt r = Alt r Eps"

fun rep :: "nat \<Rightarrow> regex \<Rightarrow> regex" where
  "rep 0 r = Eps"
| "rep (Suc n) r = Seq r (rep n r)"

fun seqs :: "regex list \<Rightarrow> regex" where
  "seqs [] = Eps"
| "seqs (r # rs) = Seq r (seqs rs)"

text \<open>
  \<^verbatim>\<open>re.search\<close> tries the start positions from the left and reports the first match
  at the first position that has one. \<open>group_str\<close> is a group of the match as an
  f-string prints it (\<^verbatim>\<open>None\<close> for a group that took no part).
\<close>

record match =
  m_start :: nat
  m_end :: nat
  m_groups :: "nat \<rightharpoonup> string"

fun search_from :: "regex \<Rightarrow> nat \<Rightarrow> string \<Rightarrow> match option" where
  "search_from r pos [] =
     (case run r ([], Map.empty) of
        [] \<Rightarrow> None
      | st # _ \<Rightarrow> Some \<lparr>m_start = pos, m_end = pos, m_groups = snd st\<rparr>)"
| "search_from r pos (c # cs) =
     (case run r (c # cs, Map.empty) of
        [] \<Rightarrow> search_from r (Suc pos) cs
      | st # _ \<Rightarrow> Some \<lparr>m_start = pos, m_end = pos + (Suc (length cs) - length (fst st)),
                         m_groups = snd st\<rparr>)"

definition re_search :: "regex \<Rightarrow> string \<Rightarrow> match option" where
  "re_search r s = search_from r 0 s"

definition group_str :: "match \<Rightarrow> nat \<Rightarrow> string" where
  "group_str m n = (case m_groups m n of None \<Rightarrow> ''None'' | Some g \<Rightarrow> g)"

text \<open>
  \<^verbatim>\<open>re.finditer\<close>: the matches from the left, each search starting where the match
  before ended. The counter is the number of characters of the last match still to be
  skipped. Every pattern iterated in this program starts with a literal word, so a
  match is never empty.
\<close>

fun finditer_go :: "regex \<Rightarrow> nat \<Rightarrow> nat \<Rightarrow> string \<Rightarrow> match list" where
  "finditer_go r pos k [] =
     (case run r ([], Map.empty) of
        [] \<Rightarrow> []
      | st # _ \<Rightarrow> if k = 0 then [\<lparr>m_start = pos, m_end = pos, m_groups = snd st\<rparr>] else [])"
| "finditer_go r pos (Suc k) (c # cs) = finditer_go r (Suc pos) k cs"
| "finditer_go r pos 0 (c # cs) =
     (case run r (c # cs, Map.empty) of
        [] \<Rightarrow> finditer_go r (Suc pos) 0 cs
      | st # _ \<Rightarrow>
          \<lparr>m_start = pos, m_end = pos + (Suc (length cs) - length (fst st)), m_groups = snd st\<rparr>
          # finditer_go r (Suc pos) (length cs - length (fst st)) cs)"

definition re_finditer :: "regex \<Rightarrow> string \<Rightarrow> match list" where
  "re_finditer r s = finditer_go r 0 0 s"

section \<open>Validation\<close>

datatype py_error = ValueError string | NameError string | KeyError string

definition unavailable_metrics :: "(string \<times> string) list" where
  "unavailable_metrics = [
     (''profit'', ''We don'' @ [CHR 0x27] @ ''t have profit data, but you can query sales or revenue''),
     (''tax'', ''Tax information is not available, but you can query total sales''),
     (''discount'', ''Discount data is not available, but you can query sales amounts''),
     (''returns'', ''Return data is not available, but you can query sales''),
     (''shipping'', ''Shipping data is not available''),
     (''cost'', ''Cost data is not available, but you can query sales price'')]"

definition unavailable_dimensions :: "(string \<times> string) list" where
  "unavailable_dimensions = [
     (''country'', ''Country data is not available, but you can query by region''),
     (''city'', ''City data is not available, but you can query by region''),
     (''state'', ''State data is not available, but you can query by region''),
     (''age'', ''Customer age data is not available''),
     (''gender'', ''Customer gender data is not available'')]"

text \<open>
  The two loops of \<^verbatim>\<open>_validate_query\<close> that append to \<^verbatim>\<open>invalid_terms\<close> and
  \<^verbatim>\<open>suggestions\<close>.
\<close>

fun scan_unavailable ::
  "(string \<times> string) list \<Rightarrow> string \<Rightarrow> string list \<times> string list \<Rightarrow> string list \<times> string list"
where
  "scan_unavailable [] query_lower acc = acc"
| "scan_unavailable ((trm, suggestion) # rest) query_lower (invalid_terms, suggestions) =
     scan_unavailable rest query_lower
       (if contains trm query_lower
        then (invalid_terms @ [trm], suggestions @ [suggestion])
        else (invalid_terms, suggestions))"

definition alternatives :: "(string \<times> string) list" where
  "alternatives = [
     (''profit'', ''revenue''),
     (''tax'', ''total sales''),
     (''discount'', ''sales''),
     (''returns'', ''sales''),
     (''shipping'', ''sales''),
     (''cost'', ''price''),
     (''country'', ''region''),
     (''city'', ''region''),
     (''state'', ''region''),
     (''age'', ''customer''),
     (''gender'', ''customer'')]"

definition get_alternative_term :: "string \<Rightarrow> string" where
  "get_alternative_term invalid_term =
     (case map_of alternatives invalid_term of None \<Rightarrow> ''sales'' | Some a \<Rightarrow> a)"

text \<open>The loop over \<^verbatim>\<open>zip(invalid_terms, suggestions)\<close> that rewrites the question.\<close>

fun replace_terms :: "(string \<times> string) list \<Rightarrow> string \<Rightarrow> string" where
  "replace_terms [] alternative_query = alternative_query"
| "replace_terms ((trm, suggestion) # rest) alternative_query =
     replace_terms rest (replace alternative_query trm (get_alternative_term trm))"

section \<open>Extraction\<close>

text \<open>
  \<^verbatim>\<open>_extract_metric\<close>: the first key of \<^verbatim>\<open>self.metrics\<close> that occurs in the query;
  the default \<^verbatim>\<open>self.metrics['sales']\<close> raises \<^verbatim>\<open>KeyError\<close> in a table without that key.
\<close>

fun metric_loop :: "(string \<times> metric_info) list \<Rightarrow> string \<Rightarrow> metric_info option" where
  "metric_loop [] query = None"
| "metric_loop ((metric_name, info) # rest) query =
     (if contains metric_name query then Some info else metric_loop rest query)"

definition extract_metric :: "QueryGenerator \<Rightarrow> string \<Rightarrow> py_error + metric_info" where
  "extract_metric self query =
     (case metric_loop (metrics self) query of
        Some info \<Rightarrow> Inr info
      | None \<Rightarrow>
          (case map_of (metrics self) ''sales'' of
             None \<Rightarrow> Inl (KeyError ''sales'')
           | Some info \<Rightarrow> Inr info))"

record dimension_info =
  dim_field :: string
  dim_join :: "string option"

definition dimension_keywords :: "(string \<times> string \<times> string option) list" where
  "dimension_keywords = [
     (''region'', ''c.region'', Some ''customers c''),
     (''product'', ''p.name'', Some ''products p''),
     (''category'', ''p.category'', Some ''products p''),
     (''customer'', ''c.name'', Some ''customers c''),
     (''date'', ''s.date'', None)]"

fun dimension_loop ::
  "(string \<times> string \<times> string option) list \<Rightarrow> string \<Rightarrow> dimension_info list \<Rightarrow> dimension_info list"
where
  "dimension_loop [] query dimensions = dimensions"
| "dimension_loop ((keyword, fld, tbl) # rest) query dimensions =
     dimension_loop rest query
       (if contains keyword query then dimensions @ [\<lparr>dim_field = fld, dim_join = tbl\<rparr>]
        else dimensions)"

definition extract_dimension :: "QueryGenerator \<Rightarrow> string \<Rightarrow> dimension_info list" where
  "extract_dimension self query = dimension_loop dimension_keywords query []"

fun aggregation_loop :: "(string \<times> string) list \<Rightarrow> string \<Rightarrow> string option" where
  "aggregation_loop [] query_lower = None"
| "aggregation_loop ((agg_key, agg_func) # rest) query_lower =
     (if contains agg_key query_lower then Some agg_func else aggregation_loop rest query_lower)"

definition extract_aggregation :: "QueryGenerator \<Rightarrow> string \<Rightarrow> string" where
  "extract_aggregation self query =
     (case aggregation_loop (aggregations self) (str_lower query) of
        Some agg_func \<Rightarrow> agg_func
      | None \<Rightarrow> ''SUM'')"

subsection \<open>Time condition\<close>

fun time_loop :: "(string \<times> string) list \<Rightarrow> string \<Rightarrow> string list \<Rightarrow> string list" where
  "time_loop [] query_lower conditions = conditions"
| "time_loop ((time_key, time_condition) # rest) query_lower conditions =
     time_loop rest query_lower
       (if contains time_key query_lower then conditions @ [time_condition] else conditions)"

text \<open>\<^verbatim>\<open>\d{4}-\d{2}-\d{2}\<close> and \<^verbatim>\<open>between\s+(\d{4}-\d{2}-\d{2})\s+and\s+(\d{4}-\d{2}-\d{2})\<close>.\<close>

definition date_re :: regex where
  "date_re = seqs [rep 4 (Sym Digit), Sym (Lit CHR ''-''), rep 2 (Sym Digit), Sym (Lit CHR ''-''),
                   rep 2 (Sym Digit)]"

definition date_range_pattern :: regex where
  "date_range_pattern =
     seqs [lit ''between'', rep1 (Sym Space), Group 1 date_re, rep1 (Sym Space), lit ''and'',
           rep1 (Sym Space), Group 2 date_re]"

definition between_condition :: "match \<Rightarrow> string" where
  "between_condition m =
     ''s.date BETWEEN '' @ [CHR 0x27] @ group_str m 1 @ [CHR 0x27] @ '' AND ''
       @ [CHR 0x27] @ group_str m 2 @ [CHR 0x27]"

definition extract_time_condition :: "QueryGenerator \<Rightarrow> string \<Rightarrow> string" where
  "extract_time_condition self query =
     (let query_lower = str_lower query;
          conditions = time_loop (time_patterns self) query_lower [];
          conditions =
            (case re_search date_range_pattern query_lower of
               Some date_range_match \<Rightarrow> conditions @ [between_condition date_range_match]
             | None \<Rightarrow> conditions)
      in if conditions \<noteq> [] then join '' AND '' conditions else [])"

subsection \<open>Comparison filters\<close>

text \<open>
  The pattern of one comparison phrase, \<^verbatim>\<open>{comp_key}\s+(\d+(?:\.\d+)?)\<close>. The keys of
  the table are letters and blanks, which stand for themselves in a pattern.
\<close>

definition comparison_pattern :: "string \<Rightarrow> regex" where
  "comparison_pattern comp_key =
     seqs [lit comp_key, rep1 (Sym Space),
           Group 1 (Seq (rep1 (Sym Digit)) (opt (Seq (Sym (Lit CHR ''.'')) (rep1 (Sym Digit)))))]"

definition comparison_field :: "string \<Rightarrow> string" where
  "comparison_field query_lower =
     (if contains ''quantity'' query_lower \<or> contains ''units'' query_lower then ''s.quantity''
      else if contains ''price'' query_lower then ''p.price''
      else if contains ''stock'' query_lower then ''p.stock''
      else ''s.total_amount'')"

fun match_loop :: "match list \<Rightarrow> string \<Rightarrow> string \<Rightarrow> string list \<Rightarrow> string list" where
  "match_loop [] query_lower comp_op conditions = conditions"
| "match_loop (m # ms) query_lower comp_op conditions =
     match_loop ms query_lower comp_op
       (conditions @ [comparison_field query_lower @ '' '' @ comp_op @ '' '' @ group_str m 1])"

fun comparison_loop :: "(string \<times> string) list \<Rightarrow> string \<Rightarrow> string list \<Rightarrow> string list" where
  "comparison_loop [] query_lower conditions = conditions"
| "comparison_loop ((comp_key, comp_op) # rest) query_lower conditions =
     comparison_loop rest query_lower
       (match_loop (re_finditer (comparison_pattern comp_key) query_lower) query_lower comp_op
          conditions)"

definition extract_comparison :: "QueryGenerator \<Rightarrow> string \<Rightarrow> string list" where
  "extract_comparison self query = comparison_loop (comparisons self) (str_lower query) []"

subsection \<open>Grouping\<close>

definition join_customers :: string where
  "join_customers = ''JOIN customers c ON s.customer_id = c.id''"

definition join_products :: string where
  "join_products = ''JOIN products p ON s.product_id = p.id''"

definition group_month :: string where
  "group_month = ''strftime('' @ [CHR 0x27] @ ''%Y-%m'' @ [CHR 0x27] @ '', s.date)''"

definition group_year :: string where
  "group_year = ''strftime('' @ [CHR 0x27] @ ''%Y'' @ [CHR 0x27] @ '', s.date)''"

text \<open>The \<^verbatim>\<open>if\<close>/\<^verbatim>\<open>elif\<close> chain over the phrases \<^verbatim>\<open>by X\<close> and \<^verbatim>\<open>per X\<close>.\<close>

definition explicit_grouping :: "string \<Rightarrow> string option \<times> string list" where
  "explicit_grouping query_lower =
     (if contains ''by region'' query_lower \<or> contains ''per region'' query_lower
        then (Some ''c.region'', [join_customers])
      else if contains ''by product'' query_lower \<or> contains ''per product'' query_lower
              \<or> contains ''by item'' query_lower
        then (Some ''p.name'', [join_products])
      else if contains ''by category'' query_lower \<or> contains ''per category'' query_lower
        then (Some ''p.category'', [join_products])
      else if contains ''by customer'' query_lower \<or> contains ''per customer'' query_lower
        then (Some ''c.name'', [join_customers])
      else if contains ''by date'' query_lower \<or> contains ''per date'' query_lower
        then (Some ''date(s.date)'', [])
      else if contains ''by month'' query_lower \<or> contains ''per month'' query_lower
        then (Some group_month, [])
      else if contains ''by year'' query_lower \<or> contains ''per year'' query_lower
        then (Some group_year, [])
      else (None, []))"

text \<open>
  The second chain runs under \<^verbatim>\<open>if not group_by\<close>: when the first chain set nothing
  (every value it sets is a non-empty string).
\<close>

definition inferred_grouping :: "string \<Rightarrow> string option \<times> string list" where
  "inferred_grouping query_lower =
     (if contains ''region'' query_lower then (Some ''c.region'', [join_customers])
      else if contains ''product'' query_lower \<or> contains ''item'' query_lower
        then (Some ''p.name'', [join_products])
      else if contains ''category'' query_lower then (Some ''p.category'', [join_products])
      else if contains ''customer'' query_lower then (Some ''c.name'', [join_customers])
      else (None, []))"

definition extract_grouping :: "QueryGenerator \<Rightarrow> string \<Rightarrow> string option \<times> string" where
  "extract_grouping self query =
     (let query_lower = str_lower query;
          (group_by, joins) = explicit_grouping query_lower;
          (group_by, joins) =
            (if group_by = None \<or> group_by = Some [] then inferred_grouping query_lower
             else (group_by, joins))
      in (group_by, join '' '' joins))"

subsection \<open>Limit\<close>

text \<open>
  \<^verbatim>\<open>top\s+(\d+)\<close>, \<^verbatim>\<open>first\s+(\d+)\<close>, \<^verbatim>\<open>(\d+)\s+best\<close>, \<^verbatim>\<open>(\d+)\s+most\<close>,
  \<^verbatim>\<open>limit\s+(\d+)\<close>, \<^verbatim>\<open>show\s+(\d+)\<close>.
\<close>

definition word_number :: "string \<Rightarrow> regex" where
  "word_number w = seqs [lit w, rep1 (Sym Space), Group 1 (rep1 (Sym Digit))]"

definition number_word :: "string \<Rightarrow> regex" where
  "number_word w = seqs [Group 1 (rep1 (Sym Digit)), rep1 (Sym Space), lit w]"

definition limit_patterns :: "regex list" where
  "limit_patterns =
     [word_number ''top'', word_number ''first'', number_word ''best'', number_word ''most'',
      word_number ''limit'', word_number ''show'']"

fun limit_loop :: "regex list \<Rightarrow> string \<Rightarrow> string option" where
  "limit_loop [] query_lower = None"
| "limit_loop (pattern # rest) query_lower =
     (case re_search pattern query_lower of
        Some m \<Rightarrow> Some (''LIMIT '' @ group_str m 1)
      | None \<Rightarrow> limit_loop rest query_lower)"

definition extract_limit :: "QueryGenerator \<Rightarrow> string \<Rightarrow> string" where
  "extract_limit self query =
     (let query_lower = str_lower query
      in case limit_loop limit_patterns query_lower of
           Some l \<Rightarrow> l
         | None \<Rightarrow>
             if list_ex (\<lambda>word. contains word query_lower) [''top'', ''best'', ''highest'', ''lowest'']
             then ''LIMIT 5'' else [])"

section \<open>Validation of a question\<close>

record components =
  metric :: metric_info
  dimension :: "dimension_info list"
  time_period :: string
  filters :: "string list"
  grouping :: "string option \<times> string"
  sorting :: "string \<times> string"
  limit :: string

definition suggestion_message :: "string list \<Rightarrow> string list \<Rightarrow> string \<Rightarrow> string" where
  "suggestion_message invalid_terms suggestions alternative_query =
     ''Cannot process query with '' @ join '', '' invalid_terms @ ''. '' @ join '' '' suggestions
       @ ''. Try: '' @ [CHR 0x27] @ alternative_query @ [CHR 0x27]"

text \<open>
  \<^verbatim>\<open>_validate_query\<close> returns \<^verbatim>\<open>(is_valid, suggestion, components)\<close>; the components of
  a rejected question are the empty dictionary, here \<open>None\<close>.
\<close>

definition validate_query ::
  "QueryGenerator \<Rightarrow> string \<Rightarrow> py_error + bool \<times> string \<times> components option"
where
  "validate_query self query =
     (let query_lower = str_lower query;
          (invalid_terms, suggestions) =
             scan_unavailable unavailable_dimensions query_lower
               (scan_unavailable unavailable_metrics query_lower ([], []))
      in if invalid_terms \<noteq> [] then
           (let alternative_query = replace_terms (zip invalid_terms suggestions) query_lower
            in Inr (False, suggestion_message invalid_terms suggestions alternative_query, None))
         else
           (case extract_metric self query_lower of
              Inl e \<Rightarrow> Inl e
            | Inr m \<Rightarrow>
                Inr (True, [],
                     Some \<lparr>metric = m,
                           dimension = extract_dimension self query_lower,
                           time_period = extract_time_condition self query_lower,
                           filters = extract_comparison self query_lower,
                           grouping = extract_grouping self query_lower,
                           sorting = extract_sorting self query_lower,
                           limit = extract_limit self query_lower\<rparr>)))"

section \<open>Assembling the SQL text\<close>

text \<open>\<^verbatim>\<open>s.split()\<close>: the maximal blocks of characters that are not whitespace.\<close>

fun split_go :: "string \<Rightarrow> string \<Rightarrow> string list" where
  "split_go w [] = (if w = [] then [] else [w])"
| "split_go w (c # cs) =
     (if is_space c then (if w = [] then split_go [] cs else w # split_go [] cs)
      else split_go (w @ [c]) cs)"

definition split_ws :: "string \<Rightarrow> string list" where
  "split_ws s = split_go [] s"

definition where_clause_of :: "string \<Rightarrow> string list \<Rightarrow> string" where
  "where_clause_of time_condition comparisons_found =
     (let where_conditions = (if time_condition \<noteq> [] then [time_condition] else []);
          where_conditions = where_conditions @ comparisons_found
      in if where_conditions \<noteq> [] then ''WHERE '' @ join '' AND '' where_conditions else [])"

definition select_clause_of :: "string option \<Rightarrow> string" where
  "select_clause_of group_by =
     (case group_by of
        None \<Rightarrow> ''SELECT '' @ [CHR 0x27] @ ''Total'' @ [CHR 0x27] @ '' as period''
      | Some g \<Rightarrow> if g = [] then ''SELECT '' @ [CHR 0x27] @ ''Total'' @ [CHR 0x27] @ '' as period''
                  else ''SELECT '' @ g)"

definition group_clause_of :: "string option \<Rightarrow> string" where
  "group_clause_of group_by =
     (case group_by of None \<Rightarrow> [] | Some g \<Rightarrow> if g = [] then [] else ''GROUP BY '' @ g)"

text \<open>The triple-quoted template: every line starts on a new line, indented by twelve blanks.\<close>

definition line_break :: string where
  "line_break = CHR 0x0A # replicate 12 CHR '' ''"

definition sql_template ::
  "string \<Rightarrow> string \<Rightarrow> string \<Rightarrow> string \<Rightarrow> string \<Rightarrow> string \<Rightarrow> string \<Rightarrow> string"
where
  "sql_template select_clause agg_column joins where_clause group_clause sort_direction limit_clause =
     line_break @ select_clause @ '','' @
     line_break @ agg_column @ '' as total'' @
     line_break @ ''FROM sales s'' @
     line_break @ joins @
     line_break @ where_clause @
     line_break @ group_clause @
     line_break @ ''ORDER BY total '' @ sort_direction @
     line_break @ limit_clause @
     CHR 0x0A # replicate 8 CHR '' ''"

text \<open>
  \<^verbatim>\<open>_generate_sql_rule_based\<close>. The aggregate column is \<^verbatim>\<open>f"{agg_func}({metric})"\<close>, and
  \<^verbatim>\<open>metric\<close> is a name that neither the method nor the module assigns: reading it
  raises \<^verbatim>\<open>NameError\<close>. The first argument is what the name \<^verbatim>\<open>metric\<close> is bound to as
  text, \<open>None\<close> when it is not bound; the program is the function at \<open>None\<close>.
\<close>

definition generate_sql_rule_based_env ::
  "string option \<Rightarrow> QueryGenerator \<Rightarrow> string \<Rightarrow> py_error + string"
where
  "generate_sql_rule_based_env metric_binding self natural_language_query =
     (case validate_query self natural_language_query of
        Inl e \<Rightarrow> Inl e
      | Inr (is_valid, suggestion, comps) \<Rightarrow>
          if \<not> is_valid then Inl (ValueError suggestion)
          else
            (let agg_func = extract_aggregation self natural_language_query;
                 (group_by, joins) = extract_grouping self natural_language_query;
                 time_condition = extract_time_condition self natural_language_query;
                 comparisons_found = extract_comparison self natural_language_query;
                 (sort_field, sort_direction) = extract_sorting self natural_language_query;
                 limit_clause = extract_limit self natural_language_query;
                 where_clause = where_clause_of time_condition comparisons_found;
                 select_clause = select_clause_of group_by
             in case metric_binding of
                  None \<Rightarrow> Inl (NameError ''metric'')
                | Some metric_text \<Rightarrow>
                    (let agg_column = agg_func @ ''('' @ metric_text @ '')'';
                         sql_query = sql_template select_clause agg_column joins where_clause
                                       (group_clause_of group_by) sort_direction limit_clause
                     in Inr (join '' '' (split_ws sql_query)))))"

definition generate_sql_rule_based :: "QueryGenerator \<Rightarrow> string \<Rightarrow> py_error + string" where
  "generate_sql_rule_based self natural_language_query =
     generate_sql_rule_based_env None self natural_language_query"

section \<open>Explaining a query\<close>

text \<open>\<^verbatim>\<open>s.strip()\<close> and \<^verbatim>\<open>s.split('.')\<close>.\<close>

definition strip :: "string \<Rightarrow> string" where
  "strip s = rev (dropWhile is_space (rev (dropWhile is_space s)))"

fun split_char :: "char \<Rightarrow> string \<Rightarrow> string list" where
  "split_char d [] = [[]]"
| "split_char d (c # cs) =
     (if c = d then [] # split_char d cs
      else (case split_char d cs of [] \<Rightarrow> [[c]] | w # ws \<Rightarrow> (c # w) # ws))"

text \<open>
  \<^verbatim>\<open>SELECT\s+(.*?)\s+FROM\<close>, \<^verbatim>\<open>GROUP BY\s+(.*?)(?=ORDER BY|LIMIT|$)\<close>,
  \<^verbatim>\<open>WHERE\s+(.*?)(?=GROUP BY|ORDER BY|LIMIT|$)\<close> and \<^verbatim>\<open>LIMIT\s+(\d+)\<close>, each searched
  with \<^verbatim>\<open>re.IGNORECASE\<close>.
\<close>

definition select_pattern :: regex where
  "select_pattern =
     seqs [lit_i ''SELECT'', rep1 (Sym Space), Group 1 (LazyStar (Sym Dot)), rep1 (Sym Space),
           lit_i ''FROM'']"

definition group_by_pattern :: regex where
  "group_by_pattern =
     seqs [lit_i ''GROUP BY'', rep1 (Sym Space), Group 1 (LazyStar (Sym Dot)),
           Look (Alt (lit_i ''ORDER BY'') (Alt (lit_i ''LIMIT'') Eos))]"

definition where_pattern :: regex where
  "where_pattern =
     seqs [lit_i ''WHERE'', rep1 (Sym Space), Group 1 (LazyStar (Sym Dot)),
           Look (Alt (lit_i ''GROUP BY'') (Alt (lit_i ''ORDER BY'') (Alt (lit_i ''LIMIT'') Eos)))]"

definition limit_pattern :: regex where
  "limit_pattern = seqs [lit_i ''LIMIT'', rep1 (Sym Space), Group 1 (rep1 (Sym Digit))]"

definition select_part :: "string \<Rightarrow> string list" where
  "select_part sql_query =
     (case re_search select_pattern sql_query of
        None \<Rightarrow> []
      | Some select_match \<Rightarrow>
          (let cols = strip (group_str select_match 1)
           in if contains ''SUM'' cols then [''This query calculates the total'']
              else if contains ''AVG'' cols then [''This query calculates the average'']
              else if contains ''COUNT'' cols then [''This query counts'']
              else if contains ''MIN'' cols then [''This query finds the minimum'']
              else if contains ''MAX'' cols then [''This query finds the maximum'']
              else []))"

definition group_part :: "string \<Rightarrow> string list" where
  "group_part sql_query =
     (if contains ''GROUP BY'' sql_query then
        (case re_search group_by_pattern sql_query of
           None \<Rightarrow> []
         | Some group_match \<Rightarrow>
             (let group_field = strip (group_str group_match 1)
              in [''grouped by '' @ last (split_char CHR ''.'' group_field)]))
      else [])"

definition where_part :: "string \<Rightarrow> string list" where
  "where_part sql_query =
     (if contains ''WHERE'' sql_query then
        (case re_search where_pattern sql_query of
           None \<Rightarrow> []
         | Some where_match \<Rightarrow> [''filtered by '' @ strip (group_str where_match 1)])
      else [])"

definition order_part :: "string \<Rightarrow> string list" where
  "order_part sql_query =
     (if contains ''ORDER BY'' sql_query then
        (if contains ''DESC'' sql_query then [''sorted in descending order'']
         else [''sorted in ascending order''])
      else [])"

definition limit_part :: "string \<Rightarrow> string list" where
  "limit_part sql_query =
     (if contains ''LIMIT'' sql_query then
        (case re_search limit_pattern sql_query of
           None \<Rightarrow> []
         | Some limit_match \<Rightarrow> [''showing top '' @ group_str limit_match 1 @ '' results''])
      else [])"

text \<open>
  The body of the \<^verbatim>\<open>try\<close> block. On a string no statement of it raises; the handler
  of \<^verbatim>\<open>explain_query\<close> is reached when the argument is not a string.
\<close>

definition explain_body :: "string \<Rightarrow> py_error + string" where
  "explain_body sql_query =
     (let explanation_parts =
            select_part sql_query @ group_part sql_query @ where_part sql_query
              @ order_part sql_query @ limit_part sql_query
      in Inr (join '' '' explanation_parts @ ''.''))"

definition generic_explanation :: string where
  "generic_explanation = ''This query retrieves data from the database.''"

definition explain_query :: "string \<Rightarrow> string" where
  "explain_query sql_query =
     (case explain_body sql_query of
        Inl e \<Rightarrow> generic_explanation
      | Inr explanation \<Rightarrow> explanation)"

section \<open>The rule-based pipeline\<close>



section \<open>The form of a date\<close>

text \<open>
  The form \<^verbatim>\<open>YYYY-MM-DD\<close> as the specification writes it: four digits, a hyphen, two
  digits, a hyphen, two digits.
\<close>

definition is_date :: "string \<Rightarrow> bool" where
  "is_date d \<longleftrightarrow>
     length d = 10 \<and> list_all is_digit (take 4 d) \<and> d ! 4 = CHR ''-''
     \<and> list_all is_digit (take 2 (drop 5 d)) \<and> d ! 7 = CHR ''-''
     \<and> list_all is_digit (drop 8 d)"

section \<open>An invariant of matching\<close>

text \<open>
  \<open>step_ok st st'\<close>: the text left in \<open>st'\<close> is an end piece of the text of \<open>st\<close>, and
  every group of \<open>st'\<close> is a group of \<open>st\<close> or a block of the text of \<open>st\<close>.
\<close>

definition step_ok :: "mstate \<Rightarrow> mstate \<Rightarrow> bool" where
  "step_ok st st' \<longleftrightarrow>
     suffix (fst st') (fst st)
     \<and> (\<forall>n g. snd st' n = Some g \<longrightarrow> snd st n = Some g \<or> sublist g (fst st))"

section \<open>Facts about strings\<close>

lemma contains_iff_sublist: "contains sub s \<longleftrightarrow> sublist sub s"
  by (induction s) (auto simp: sublist_Cons_right)

lemma contains_set: "contains k s \<Longrightarrow> set k \<subseteq> set s"
  by (simp add: contains_iff_sublist set_mono_sublist)

lemma lower_char_underscore: "lower_char c = CHR ''_'' \<Longrightarrow> c = CHR ''_''"
proof (rule ccontr)
  assume eq: "lower_char c = CHR ''_''" and ne: "c \<noteq> CHR ''_''"
  let ?n = "of_char c :: nat"
  have up: "(65 \<le> ?n \<and> ?n \<le> 90) \<or> (192 \<le> ?n \<and> ?n \<le> 222 \<and> ?n \<noteq> 215)"
    using eq ne by (auto simp: lower_char_def Let_def split: if_splits)
  then have "lower_char c = char_of (?n + 32)"
    by (simp add: lower_char_def Let_def)
  with eq have "(of_char (char_of (?n + 32)) :: nat) = of_char CHR ''_''" by simp
  then have m: "(?n + 32) mod 256 = 95" by simp
  from up have "?n + 32 < 256" by linarith
  then have "(?n + 32) mod 256 = ?n + 32" by simp
  with m have "?n + 32 = 95" by simp
  with up show False by linarith
qed

lemma str_lower_underscore: "CHR ''_'' \<notin> set q \<Longrightarrow> CHR ''_'' \<notin> set (str_lower q)"
proof
  assume q: "CHR ''_'' \<notin> set q" and "CHR ''_'' \<in> set (str_lower q)"
  then obtain c where c: "c \<in> set q" "lower_char c = CHR ''_''"
    by (auto simp: str_lower_def)
  from c(2) have "c = CHR ''_''" by (rule lower_char_underscore)
  with c(1) q show False by simp
qed

lemma no_underscore_key:
  assumes "CHR ''_'' \<notin> set s" and "CHR ''_'' \<in> set k"
  shows "\<not> contains k s"
  using assms contains_set by blast

section \<open>Facts about matching\<close>

lemma step_ok_refl: "step_ok st st"
  by (simp add: step_ok_def)

lemma suffix_chain: "suffix a b \<Longrightarrow> suffix b c \<Longrightarrow> suffix a c"
  by (auto simp: suffix_def)

lemma sublist_of_suffix: "sublist g b \<Longrightarrow> suffix b c \<Longrightarrow> sublist g c"
proof -
  assume "sublist g b" "suffix b c"
  then obtain ps ss zs where "b = ps @ g @ ss" "c = zs @ b"
    by (auto simp: sublist_def suffix_def)
  then have "c = (zs @ ps) @ g @ ss" by simp
  then show ?thesis unfolding sublist_def by blast
qed

lemma step_ok_trans: "step_ok a b \<Longrightarrow> step_ok b c \<Longrightarrow> step_ok a c"
  unfolding step_ok_def
  by (meson suffix_chain sublist_of_suffix)

lemma star_greedy_ok:
  assumes f: "\<And>st st'. st' \<in> set (f st) \<Longrightarrow> step_ok st st'"
  shows "st' \<in> set (star_greedy f k st) \<Longrightarrow> step_ok st st'"
proof (induction k arbitrary: st st')
  case 0
  then show ?case by (simp add: step_ok_refl)
next
  case (Suc k)
  from Suc.prems have "st' = st \<or> (\<exists>m \<in> set (f st). st' \<in> set (star_greedy f k m))"
    by (auto split: if_splits)
  then show ?case
  proof
    assume "st' = st" then show ?thesis by (simp add: step_ok_refl)
  next
    assume "\<exists>m \<in> set (f st). st' \<in> set (star_greedy f k m)"
    then obtain m where m: "m \<in> set (f st)" "st' \<in> set (star_greedy f k m)" by blast
    from f [OF m(1)] Suc.IH [OF m(2)] show ?thesis by (rule step_ok_trans)
  qed
qed

lemma star_lazy_ok:
  assumes f: "\<And>st st'. st' \<in> set (f st) \<Longrightarrow> step_ok st st'"
  shows "st' \<in> set (star_lazy f k st) \<Longrightarrow> step_ok st st'"
proof (induction k arbitrary: st st')
  case 0
  then show ?case by (simp add: step_ok_refl)
next
  case (Suc k)
  from Suc.prems have "st' = st \<or> (\<exists>m \<in> set (f st). st' \<in> set (star_lazy f k m))"
    by (auto split: if_splits)
  then show ?case
  proof
    assume "st' = st" then show ?thesis by (simp add: step_ok_refl)
  next
    assume "\<exists>m \<in> set (f st). st' \<in> set (star_lazy f k m)"
    then obtain m where m: "m \<in> set (f st)" "st' \<in> set (star_lazy f k m)" by blast
    from f [OF m(1)] Suc.IH [OF m(2)] show ?thesis by (rule step_ok_trans)
  qed
qed

lemma run_ok: "st' \<in> set (run r st) \<Longrightarrow> step_ok st st'"
proof (induction r arbitrary: st st')
  case (Sym cl)
  then show ?case
    by (cases st) (auto simp: step_ok_def suffix_def split: list.splits if_splits)
next
  case Eps
  then show ?case by (simp add: step_ok_refl)
next
  case (Seq a b)
  from Seq.prems obtain m where "m \<in> set (run a st)" "st' \<in> set (run b m)" by auto
  then show ?case using Seq.IH step_ok_trans by blast
next
  case (Alt a b)
  from Alt.prems have "st' \<in> set (run a st) \<or> st' \<in> set (run b st)" by simp
  then show ?case using Alt.IH by blast
next
  case (Star a)
  then show ?case using star_greedy_ok [of "run a"] by auto
next
  case (LazyStar a)
  then show ?case using star_lazy_ok [of "run a"] by auto
next
  case (Group n a)
  from Group.prems obtain m where m: "m \<in> set (run a st)"
    and st': "st' = (fst m, (snd m)(n \<mapsto> take (length (fst st) - length (fst m)) (fst st)))"
    by auto
  from Group.IH [OF m] have "step_ok st m" .
  then show ?case unfolding st' step_ok_def by auto
next
  case (Look a)
  then show ?case by (auto simp: step_ok_refl split: if_splits)
next
  case Eos
  then show ?case by (auto simp: step_ok_refl split: if_splits)
qed

lemma search_from_run:
  "search_from r pos s = Some m \<Longrightarrow>
     \<exists>suf st. suffix suf s \<and> st \<in> set (run r (suf, Map.empty)) \<and> m_groups m = snd st"
proof (induction s arbitrary: pos)
  case Nil
  then show ?case by (auto split: list.splits)
next
  case (Cons c cs)
  show ?case
  proof (cases "run r (c # cs, Map.empty)")
    case Nil
    with Cons.prems have "search_from r (Suc pos) cs = Some m" by simp
    from Cons.IH [OF this] show ?thesis by (meson suffix_ConsI)
  next
    case (Cons st sts)
    with Cons.prems have "m_groups m = snd st" by auto
    moreover have "st \<in> set (run r (c # cs, Map.empty))" using Cons by simp
    moreover have "suffix (c # cs) (c # cs)" by (simp add: suffix_def)
    ultimately show ?thesis by blast
  qed
qed

lemma re_search_group_sublist:
  assumes "re_search r s = Some m" and "m_groups m n = Some g"
  shows "sublist g s"
proof -
  from assms(1) obtain suf st where suf: "suffix suf s"
    and st: "st \<in> set (run r (suf, Map.empty))" and g: "m_groups m = snd st"
    unfolding re_search_def using search_from_run by blast
  from run_ok [OF st] assms(2) g have sub: "sublist g suf"
    by (auto simp: step_ok_def)
  from sub suf show ?thesis by (rule sublist_of_suffix)
qed

section \<open>Sorting: the priority of the direction keywords\<close>

text \<open>
  C3 as the specification states it fails: with both \<open>highest\<close> and \<open>increasing\<close> in
  the question the direction is \<open>ASC\<close>, the direction of \<open>increasing\<close>, not \<open>DESC\<close>.
\<close>

theorem C3_highest_increasing_counterexample:
  "contains ''highest'' (str_lower ''highest increasing'')
   \<and> contains ''increasing'' (str_lower ''highest increasing'')
   \<and> snd (extract_sorting (init None) ''highest increasing'') = ''ASC''
   \<and> snd (extract_sorting (init None) ''highest increasing'') \<noteq> ''DESC''"
  by (simp add: extract_sorting_def init_def str_lower_def lower_char_def)

text \<open>
  C3, amended: the direction is that of the first keyword occurring in the lower-cased
  question in the order ascending, descending, increasing, decreasing, highest, lowest,
  most, least, and \<open>DESC\<close> when none occurs. A question with both \<open>highest\<close> and
  \<open>increasing\<close>, and neither \<open>ascending\<close> nor \<open>descending\<close>, is sorted \<open>ASC\<close>.
\<close>

theorem C3_sort_direction_priority:
  "snd (extract_sorting (init key) q) =
     (let l = str_lower q
      in if contains ''ascending'' l then ''ASC''
         else if contains ''descending'' l then ''DESC''
         else if contains ''increasing'' l then ''ASC''
         else if contains ''decreasing'' l then ''DESC''
         else if contains ''highest'' l then ''DESC''
         else if contains ''lowest'' l then ''ASC''
         else if contains ''most'' l then ''DESC''
         else if contains ''least'' l then ''ASC''
         else ''DESC'')
   \<and> (contains ''highest'' (str_lower q) \<and> contains ''increasing'' (str_lower q)
        \<and> \<not> contains ''ascending'' (str_lower q) \<and> \<not> contains ''descending'' (str_lower q)
      \<longrightarrow> snd (extract_sorting (init key) q) = ''ASC'')"
  by (simp add: extract_sorting_def init_def Let_def)

theorem C3_sort_direction_priority_witness:
  "snd (extract_sorting (init None) ''Highest increasing'') = ''ASC''"
  using C3_sort_direction_priority [of None "''Highest increasing''"]
  by (simp add: str_lower_def lower_char_def)

section \<open>Metric names with an underscore\<close>

text \<open>
  C10: the metric is looked up in the lower-cased question (\<^verbatim>\<open>_validate_query\<close> passes
  \<^verbatim>\<open>query_lower\<close>). For a question without an underscore the metric found is the first
  of sales, revenue and quantity that occurs in it, the sales metric when none occurs,
  and never one of average_sale, customer_count and order_count. For the question
  \<open>Average sale amount\<close> the metric is the sales metric, aggregated by SUM.
\<close>

theorem C10_underscore_metrics_never_selected:
  assumes "CHR ''_'' \<notin> set q"
  shows "extract_metric (init key) (str_lower q) =
           Inr (if contains ''sales'' (str_lower q) then sales_metric
                else if contains ''revenue'' (str_lower q) then revenue_metric
                else if contains ''quantity'' (str_lower q) then quantity_metric
                else sales_metric)
         \<and> extract_metric (init key) (str_lower q) \<notin>
             {Inr average_sale_metric, Inr customer_count_metric, Inr order_count_metric}"
proof -
  let ?l = "str_lower q"
  from assms have u: "CHR ''_'' \<notin> set ?l" by (rule str_lower_underscore)
  have 1: "\<not> contains ''average_sale'' ?l" by (rule no_underscore_key [OF u]) simp
  have 2: "\<not> contains ''customer_count'' ?l" by (rule no_underscore_key [OF u]) simp
  have 3: "\<not> contains ''order_count'' ?l" by (rule no_underscore_key [OF u]) simp
  have eq: "extract_metric (init key) ?l =
           Inr (if contains ''sales'' ?l then sales_metric
                else if contains ''revenue'' ?l then revenue_metric
                else if contains ''quantity'' ?l then quantity_metric
                else sales_metric)"
    using 1 2 3 by (simp add: extract_metric_def init_def)
  have "agg sales_metric = ''SUM''" "agg revenue_metric = ''SUM''" "agg quantity_metric = ''SUM''"
    "agg average_sale_metric = ''AVG''" "agg customer_count_metric = ''COUNT DISTINCT''"
    "agg order_count_metric = ''COUNT''"
    by (simp_all add: sales_metric_def revenue_metric_def quantity_metric_def
        average_sale_metric_def customer_count_metric_def order_count_metric_def)
  then have "sales_metric \<notin> {average_sale_metric, customer_count_metric, order_count_metric}"
    "revenue_metric \<notin> {average_sale_metric, customer_count_metric, order_count_metric}"
    "quantity_metric \<notin> {average_sale_metric, customer_count_metric, order_count_metric}"
    by auto
  with eq show ?thesis by auto
qed

theorem C10_underscore_metrics_never_selected_witness:
  "CHR ''_'' \<notin> set ''Average sale amount''
   \<and> extract_metric (init None) (str_lower ''Average sale amount'') = Inr sales_metric
   \<and> agg sales_metric = ''SUM''"
proof -
  have h: "CHR ''_'' \<notin> set ''Average sale amount''" by simp
  show ?thesis
    using h C10_underscore_metrics_never_selected [OF h, of None]
    by (simp add: str_lower_def lower_char_def sales_metric_def)
qed

section \<open>Overlapping comparison phrases\<close>

text \<open>
  C9: the phrase \<open>greater than or equal to 5\<close> contains the phrase \<open>equal to 5\<close>, and
  the extraction of comparison filters returns two conditions for it, one with \<open>=\<close>
  and one with \<open>>=\<close>, both on the default field.
\<close>

theorem C9_overlapping_phrases:
  "extract_comparison (init key) ''sales greater than or equal to 5'' =
     [''s.total_amount = 5'', ''s.total_amount >= 5'']"
  by code_simp

section \<open>Questions with an unavailable term\<close>

lemma scan_unavailable_filter:
  "scan_unavailable ps l (ts, hs) =
     (ts @ map fst (filter (\<lambda>(t, h). contains t l) ps),
      hs @ map snd (filter (\<lambda>(t, h). contains t l) ps))"
  by (induction ps arbitrary: ts hs) auto

lemma replace_terms_foldl:
  "replace_terms ps a = foldl (\<lambda>s t. replace s t (get_alternative_term t)) a (map fst ps)"
  by (induction ps arbitrary: a) auto

lemma zip_fst_snd: "zip (map fst xs) (map snd xs) = xs"
  by (induction xs) auto

lemma contains_append_left: "contains k a \<Longrightarrow> contains k (a @ b)"
  by (auto simp: contains_iff_sublist sublist_append)

lemma contains_append_right: "contains k b \<Longrightarrow> contains k (a @ b)"
  by (auto simp: contains_iff_sublist sublist_append)

lemma contains_join_hd: "contains k x \<Longrightarrow> contains k (join sep (x # xs))"
  by (cases xs) (auto intro: contains_append_left)

text \<open>
  C4: when a term of the two lists of unavailable terms occurs in the lower-cased
  question, validation returns invalid with the message that lists the matched terms,
  then their hints, then the rewritten question, which is the lower-cased question
  after replacing, one matched term after the other in the order of the lists, every
  occurrence of the term by its fixed analog. When \<open>profit\<close> occurs it is the first
  matched term, the message mentions \<open>revenue\<close>, and the rewriting starts by replacing
  \<open>profit\<close> by \<open>revenue\<close>.
\<close>

theorem C4_unavailable_terms:
  "(let l = str_lower q;
        matched = filter (\<lambda>(t, h). contains t l) (unavailable_metrics @ unavailable_dimensions);
        rewritten = foldl (\<lambda>s t. replace s t (get_alternative_term t)) l (map fst matched);
        message = ''Cannot process query with '' @ join '', '' (map fst matched) @ ''. ''
                   @ join '' '' (map snd matched) @ ''. Try: '' @ [CHR 0x27] @ rewritten @ [CHR 0x27]
    in (matched \<noteq> [] \<longrightarrow> validate_query self q = Inr (False, message, None))
       \<and> (contains ''profit'' l \<longrightarrow>
            validate_query self q = Inr (False, message, None)
            \<and> contains ''revenue'' message
            \<and> fst (hd matched) = ''profit''
            \<and> rewritten = foldl (\<lambda>s t. replace s t (get_alternative_term t))
                             (replace l ''profit'' ''revenue'') (map fst (tl matched))))
   \<and> map (\<lambda>(t, h). (t, get_alternative_term t)) (unavailable_metrics @ unavailable_dimensions) =
       [(''profit'', ''revenue''), (''tax'', ''total sales''), (''discount'', ''sales''),
        (''returns'', ''sales''), (''shipping'', ''sales''), (''cost'', ''price''),
        (''country'', ''region''), (''city'', ''region''), (''state'', ''region''),
        (''age'', ''customer''), (''gender'', ''customer'')]"
proof -
  let ?l = "str_lower q"
  let ?P = "\<lambda>(t, h). contains t ?l"
  let ?matched = "filter ?P (unavailable_metrics @ unavailable_dimensions)"
  let ?rewritten = "foldl (\<lambda>s t. replace s t (get_alternative_term t)) ?l (map fst ?matched)"
  let ?message = "''Cannot process query with '' @ join '', '' (map fst ?matched) @ ''. ''
                   @ join '' '' (map snd ?matched) @ ''. Try: '' @ [CHR 0x27] @ ?rewritten @ [CHR 0x27]"
  have scan: "scan_unavailable unavailable_dimensions ?l
                (scan_unavailable unavailable_metrics ?l ([], [])) =
              (map fst ?matched, map snd ?matched)"
    by (simp add: scan_unavailable_filter)
  have invalid: "validate_query self q = Inr (False, ?message, None)" if "?matched \<noteq> []"
    using that unfolding validate_query_def Let_def scan
    by (simp add: suggestion_message_def replace_terms_foldl zip_fst_snd)
  have table: "map (\<lambda>(t, h). (t, get_alternative_term t)) (unavailable_metrics @ unavailable_dimensions) =
       [(''profit'', ''revenue''), (''tax'', ''total sales''), (''discount'', ''sales''),
        (''returns'', ''sales''), (''shipping'', ''sales''), (''cost'', ''price''),
        (''country'', ''region''), (''city'', ''region''), (''state'', ''region''),
        (''age'', ''customer''), (''gender'', ''customer'')]"
    by (simp add: unavailable_metrics_def unavailable_dimensions_def get_alternative_term_def
        alternatives_def)
  have profit: "validate_query self q = Inr (False, ?message, None)
            \<and> contains ''revenue'' ?message
            \<and> fst (hd ?matched) = ''profit''
            \<and> ?rewritten = foldl (\<lambda>s t. replace s t (get_alternative_term t))
                             (replace ?l ''profit'' ''revenue'') (map fst (tl ?matched))"
    if p: "contains ''profit'' ?l"
  proof -
    obtain rest where m: "?matched =
        (''profit'', ''We don'' @ [CHR 0x27] @ ''t have profit data, but you can query sales or revenue'')
        # rest"
      using p by (simp add: unavailable_metrics_def)
    have hint: "contains ''revenue''
        (''We don'' @ [CHR 0x27] @ ''t have profit data, but you can query sales or revenue'')"
      by code_simp
    have "contains ''revenue'' (join '' '' (map snd ?matched))"
      unfolding m using hint by (simp only: list.map snd_conv contains_join_hd)
    then have c: "contains ''revenue'' ?message"
      by (intro contains_append_right contains_append_left)
    have ne: "?matched \<noteq> []" unfolding m by (rule list.distinct(2))
    have alt: "get_alternative_term ''profit'' = ''revenue''"
      by (simp add: get_alternative_term_def alternatives_def)
    have h: "fst (hd ?matched) = ''profit''"
      unfolding m by (simp only: list.sel fst_conv)
    have rw: "?rewritten = foldl (\<lambda>s t. replace s t (get_alternative_term t))
                             (replace ?l ''profit'' ''revenue'') (map fst (tl ?matched))"
      unfolding m by (simp only: list.map list.sel fst_conv foldl_Cons alt)
    from invalid [OF ne] c h rw show ?thesis by (intro conjI)
  qed
  show ?thesis unfolding Let_def using invalid profit table by blast
qed

theorem C4_unavailable_terms_witness:
  "validate_query (init None) ''What is our Profit by country'' =
     Inr (False,
          ''Cannot process query with profit, country. We don'' @ [CHR 0x27]
            @ ''t have profit data, but you can query sales or revenue Country data is not available, but you can query by region. Try: ''
            @ [CHR 0x27] @ ''what is our revenue by region'' @ [CHR 0x27],
          None)"
proof -
  let ?q = "''What is our Profit by country''"
  let ?matched = "filter (\<lambda>(t, h). contains t (str_lower ?q))
                    (unavailable_metrics @ unavailable_dimensions)"
  have p: "contains ''profit'' (str_lower ?q)" by code_simp
  have r: "''Cannot process query with '' @ join '', '' (map fst ?matched) @ ''. ''
             @ join '' '' (map snd ?matched) @ ''. Try: '' @ [CHR 0x27]
             @ foldl (\<lambda>s t. replace s t (get_alternative_term t)) (str_lower ?q) (map fst ?matched)
             @ [CHR 0x27] =
           ''Cannot process query with profit, country. We don'' @ [CHR 0x27]
            @ ''t have profit data, but you can query sales or revenue Country data is not available, but you can query by region. Try: ''
            @ [CHR 0x27] @ ''what is our revenue by region'' @ [CHR 0x27]"
    by code_simp
  from C4_unavailable_terms [of ?q "init None"] p
  have "validate_query (init None) ?q =
     Inr (False,
          ''Cannot process query with '' @ join '', '' (map fst ?matched) @ ''. ''
             @ join '' '' (map snd ?matched) @ ''. Try: '' @ [CHR 0x27]
             @ foldl (\<lambda>s t. replace s t (get_alternative_term t)) (str_lower ?q) (map fst ?matched)
             @ [CHR 0x27],
          None)"
    unfolding Let_def by blast
  then show ?thesis unfolding r .
qed

section \<open>The explanation when nothing is extracted\<close>

lemma sublist_strip: "sublist (strip s) s"
proof -
  have "prefix (rev (dropWhile is_space (rev (dropWhile is_space s)))) (dropWhile is_space s)"
    by (metis suffix_dropWhile suffix_to_prefix rev_rev_ident)
  then have "sublist (strip s) (dropWhile is_space s)"
    unfolding strip_def by (rule prefix_imp_sublist)
  moreover have "suffix (dropWhile is_space s) s" by (rule suffix_dropWhile)
  ultimately show ?thesis by (rule sublist_of_suffix)
qed

lemma sublist_chain: "sublist a b \<Longrightarrow> sublist b c \<Longrightarrow> sublist a c"
proof -
  assume "sublist a b" "sublist b c"
  then obtain p1 s1 p2 s2 where "b = p1 @ a @ s1" "c = p2 @ b @ s2"
    by (auto simp: sublist_def)
  then have "c = (p2 @ p1) @ a @ (s1 @ s2)" by simp
  then show ?thesis unfolding sublist_def by blast
qed

lemma contains_strip: "contains k (strip s) \<Longrightarrow> contains k s"
  unfolding contains_iff_sublist using sublist_strip [of s] by (rule sublist_chain [rotated])

lemma contains_group:
  assumes "re_search r s = Some m" and "contains k (strip (group_str m n))"
    and "\<not> contains k ''None''"
  shows "contains k s"
proof (cases "m_groups m n")
  case None
  then have "group_str m n = ''None''" by (simp add: group_str_def)
  with assms(2) have "contains k ''None''" using contains_strip by metis
  with assms(3) show ?thesis by blast
next
  case (Some g)
  then have "group_str m n = g" by (simp add: group_str_def)
  with assms(2) have "contains k g" using contains_strip by metis
  moreover from assms(1) Some have "sublist g s" by (rule re_search_group_sublist)
  ultimately show ?thesis unfolding contains_iff_sublist by (rule sublist_chain)
qed

lemma select_part_empty:
  assumes "\<not> contains ''SUM'' sql" "\<not> contains ''AVG'' sql" "\<not> contains ''COUNT'' sql"
    "\<not> contains ''MIN'' sql" "\<not> contains ''MAX'' sql"
  shows "select_part sql = []"
proof (cases "re_search select_pattern sql")
  case None
  then show ?thesis by (simp add: select_part_def)
next
  case (Some m)
  have n: "\<not> contains ''SUM'' ''None''" "\<not> contains ''AVG'' ''None''" "\<not> contains ''COUNT'' ''None''"
    "\<not> contains ''MIN'' ''None''" "\<not> contains ''MAX'' ''None''"
    by simp_all
  have "\<not> contains ''SUM'' (strip (group_str m 1))" using contains_group [OF Some _ n(1)] assms(1) by blast
  moreover have "\<not> contains ''AVG'' (strip (group_str m 1))" using contains_group [OF Some _ n(2)] assms(2) by blast
  moreover have "\<not> contains ''COUNT'' (strip (group_str m 1))" using contains_group [OF Some _ n(3)] assms(3) by blast
  moreover have "\<not> contains ''MIN'' (strip (group_str m 1))" using contains_group [OF Some _ n(4)] assms(4) by blast
  moreover have "\<not> contains ''MAX'' (strip (group_str m 1))" using contains_group [OF Some _ n(5)] assms(5) by blast
  ultimately show ?thesis using Some by (simp add: select_part_def Let_def)
qed

lemma join_Cons_prefix: "\<exists>t. join sep (p # ps) = p @ t"
  by (cases ps) auto

lemma select_part_cases:
  "select_part sql = [] \<or> select_part sql = [''This query calculates the total'']
   \<or> select_part sql = [''This query calculates the average'']
   \<or> select_part sql = [''This query counts'']
   \<or> select_part sql = [''This query finds the minimum'']
   \<or> select_part sql = [''This query finds the maximum'']"
  by (simp add: select_part_def Let_def split: option.splits)

lemma group_part_cases: "group_part sql = [] \<or> (\<exists>t. group_part sql = [''grouped by '' @ t])"
  by (simp add: group_part_def Let_def split: option.splits)

lemma where_part_cases: "where_part sql = [] \<or> (\<exists>t. where_part sql = [''filtered by '' @ t])"
  by (simp add: where_part_def Let_def split: option.splits)

lemma order_part_cases: "order_part sql = [] \<or> (\<exists>t. order_part sql = [''sorted in '' @ t])"
  by (simp add: order_part_def)

lemma limit_part_cases: "limit_part sql = [] \<or> (\<exists>t. limit_part sql = [''showing top '' @ t])"
  by (simp add: limit_part_def Let_def split: option.splits)

lemma explain_never_generic: "explain_query sql \<noteq> generic_explanation"
proof -
  let ?parts = "select_part sql @ group_part sql @ where_part sql @ order_part sql @ limit_part sql"
  have e: "explain_query sql = join '' '' ?parts @ ''.''"
    by (simp add: explain_query_def explain_body_def)
  have "?parts = [] \<or> (\<exists>c t ps. ?parts = (''This query '' @ c # t) # ps \<and> c \<noteq> CHR ''r'')
        \<or> (\<exists>c t ps. ?parts = (c # t) # ps \<and> c \<noteq> CHR ''T'')"
    using select_part_cases [of sql] group_part_cases [of sql] where_part_cases [of sql]
      order_part_cases [of sql] limit_part_cases [of sql]
    by (elim disjE exE) simp_all
  then show ?thesis
  proof (elim disjE exE conjE)
    assume "?parts = []"
    then show ?thesis unfolding e by (simp add: generic_explanation_def)
  next
    fix c t ps assume p: "?parts = (''This query '' @ c # t) # ps" and c: "c \<noteq> CHR ''r''"
    obtain u where "join '' '' ?parts = (''This query '' @ c # t) @ u"
      unfolding p using join_Cons_prefix by blast
    then show ?thesis unfolding e using c by (simp add: generic_explanation_def)
  next
    fix c t ps assume p: "?parts = (c # t) # ps" and c: "c \<noteq> CHR ''T''"
    obtain u where "join '' '' ?parts = (c # t) @ u"
      unfolding p using join_Cons_prefix by blast
    then show ?thesis unfolding e using c by (simp add: generic_explanation_def)
  qed
qed

text \<open>
  C2 as the specification states it fails: on the empty SQL text nothing is extracted
  and the explanation is the string \<open>.\<close>, not the generic sentence.
\<close>

theorem C2_empty_sql_counterexample:
  "\<not> contains ''SUM'' [] \<and> \<not> contains ''AVG'' [] \<and> \<not> contains ''COUNT'' []
   \<and> \<not> contains ''MIN'' [] \<and> \<not> contains ''MAX'' [] \<and> \<not> contains ''GROUP BY'' []
   \<and> \<not> contains ''WHERE'' [] \<and> \<not> contains ''ORDER BY'' [] \<and> \<not> contains ''LIMIT'' []
   \<and> explain_query [] = ''.''
   \<and> explain_query [] \<noteq> ''This query retrieves data from the database.''"
  by code_simp

text \<open>
  C2, amended: for every SQL text that contains none of \<open>SUM\<close>, \<open>AVG\<close>, \<open>COUNT\<close>,
  \<open>MIN\<close>, \<open>MAX\<close>, \<open>GROUP BY\<close>, \<open>WHERE\<close>, \<open>ORDER BY\<close> and \<open>LIMIT\<close>, the explanation
  is the string \<open>.\<close> (no part, then the final period), and it is not the generic
  sentence, which only the exception handler returns.
\<close>

theorem C2_nothing_extracted:
  assumes "\<not> contains ''SUM'' sql" "\<not> contains ''AVG'' sql" "\<not> contains ''COUNT'' sql"
    "\<not> contains ''MIN'' sql" "\<not> contains ''MAX'' sql" "\<not> contains ''GROUP BY'' sql"
    "\<not> contains ''WHERE'' sql" "\<not> contains ''ORDER BY'' sql" "\<not> contains ''LIMIT'' sql"
  shows "explain_query sql = ''.'' \<and> explain_query sql \<noteq> generic_explanation"
proof -
  have "select_part sql = []" using assms(1-5) by (rule select_part_empty)
  then have "explain_query sql = ''.''"
    using assms(6-9)
    by (simp add: explain_query_def explain_body_def group_part_def where_part_def order_part_def
        limit_part_def)
  then show ?thesis using explain_never_generic [of sql] by (rule conjI)
qed

theorem C2_nothing_extracted_witness:
  "explain_query ''select name from products'' = ''.''"
proof -
  have h: "\<not> contains ''SUM'' ''select name from products''"
    "\<not> contains ''AVG'' ''select name from products''"
    "\<not> contains ''COUNT'' ''select name from products''"
    "\<not> contains ''MIN'' ''select name from products''"
    "\<not> contains ''MAX'' ''select name from products''"
    "\<not> contains ''GROUP BY'' ''select name from products''"
    "\<not> contains ''WHERE'' ''select name from products''"
    "\<not> contains ''ORDER BY'' ''select name from products''"
    "\<not> contains ''LIMIT'' ''select name from products''"
    by simp_all
  from C2_nothing_extracted [OF h] show ?thesis by (rule conjunct1)
qed

section \<open>What the patterns match\<close>

lemma run_lit:
  "run (lit w) st = (if prefix w (fst st) then [(drop (length w) (fst st), snd st)] else [])"
proof (induction w arbitrary: st)
  case Nil
  then show ?case by simp
next
  case (Cons c w)
  show ?case
  proof (cases "fst st")
    case Nil
    then show ?thesis by simp
  next
    case (Cons x xs)
    then show ?thesis using Cons.IH [of "(xs, snd st)"] by simp
  qed
qed

lemma run_sym:
  "st' \<in> set (run (Sym cl) st) \<Longrightarrow> \<exists>x. fst st = x # fst st' \<and> accepts cl x \<and> snd st' = snd st"
  by (cases "fst st") (auto split: if_splits)

lemma in_run_Seq:
  "st' \<in> set (run (Seq a b) st) \<longleftrightarrow> (\<exists>m \<in> set (run a st). st' \<in> set (run b m))"
  by (simp only: run.simps set_concat set_map) blast

lemma in_run_Group:
  "st' \<in> set (run (Group n a) st) \<longleftrightarrow>
     (\<exists>m \<in> set (run a st).
        st' = (fst m, (snd m)(n \<mapsto> take (length (fst st) - length (fst m)) (fst st))))"
  by (simp only: run.simps set_map) blast

lemma in_run_Eps: "st' \<in> set (run Eps st) \<longleftrightarrow> st' = st"
  by simp

lemma star_greedy_chars:
  assumes f: "\<And>st st'. st' \<in> set (f st) \<Longrightarrow> \<exists>x. fst st = x # fst st' \<and> P x \<and> snd st' = snd st"
  shows "st' \<in> set (star_greedy f k st) \<Longrightarrow>
     \<exists>xs. fst st = xs @ fst st' \<and> list_all P xs \<and> snd st' = snd st"
proof (induction k arbitrary: st)
  case 0
  then show ?case by simp
next
  case (Suc k)
  from Suc.prems have "st' = st \<or> (\<exists>m \<in> set (f st). st' \<in> set (star_greedy f k m))"
    by (auto split: if_splits)
  then show ?case
  proof
    assume "st' = st"
    then show ?thesis by simp
  next
    assume "\<exists>m \<in> set (f st). st' \<in> set (star_greedy f k m)"
    then obtain m where m: "m \<in> set (f st)" "st' \<in> set (star_greedy f k m)" by blast
    from f [OF m(1)] obtain x where x: "fst st = x # fst m" "P x" "snd m = snd st" by auto
    from Suc.IH [OF m(2)] obtain ys where ys: "fst m = ys @ fst st'" "list_all P ys"
      "snd st' = snd m" by auto
    from x ys have "fst st = (x # ys) @ fst st' \<and> list_all P (x # ys) \<and> snd st' = snd st"
      by simp
    then show ?thesis by blast
  qed
qed

lemma run_rep1_sym:
  assumes "st' \<in> set (run (rep1 (Sym cl)) st)"
  shows "\<exists>xs. xs \<noteq> [] \<and> fst st = xs @ fst st' \<and> list_all (accepts cl) xs \<and> snd st' = snd st"
proof -
  from assms obtain m where m: "m \<in> set (run (Sym cl) st)" "st' \<in> set (run (Star (Sym cl)) m)"
    unfolding rep1_def in_run_Seq by blast
  from run_sym [OF m(1)] obtain x where x: "fst st = x # fst m" "accepts cl x" "snd m = snd st"
    by auto
  from m(2) have "st' \<in> set (star_greedy (run (Sym cl)) (length (fst m)) m)"
    by (simp only: run.simps)
  from star_greedy_chars [of "run (Sym cl)" "accepts cl", OF run_sym this]
  obtain ys where ys: "fst m = ys @ fst st'" "list_all (accepts cl) ys" "snd st' = snd m"
    by auto
  from x ys have "x # ys \<noteq> [] \<and> fst st = (x # ys) @ fst st' \<and> list_all (accepts cl) (x # ys)
      \<and> snd st' = snd st"
    by simp
  then show ?thesis by blast
qed




lemma suffix_contains: "suffix (a @ b) s \<Longrightarrow> contains a s"
  unfolding contains_iff_sublist by (auto simp: suffix_def sublist_def)



section \<open>Limit extraction\<close>



section \<open>The pipeline on a question without keywords\<close>

text \<open>
  C1 fails on the code: the question \<open>hello\<close> passes validation and has no time
  condition, no comparison filter, no grouping, the default direction and no limit, and
  for it \<^verbatim>\<open>_generate_sql_rule_based\<close> does not return the text \<open>SELECT 'Total' as period,
  SUM(s.total_amount) AS total FROM sales s ORDER BY total DESC\<close>: it raises
  \<^verbatim>\<open>NameError\<close> where the aggregate column reads the name \<^verbatim>\<open>metric\<close>.
\<close>

theorem C1_pipeline_raises_on_hello:
  "(case validate_query (init None) ''hello'' of Inl e \<Rightarrow> False | Inr (ok, s, c) \<Rightarrow> ok)
   \<and> extract_time_condition (init None) ''hello'' = []
   \<and> extract_comparison (init None) ''hello'' = []
   \<and> extract_grouping (init None) ''hello'' = (None, [])
   \<and> snd (extract_sorting (init None) ''hello'') = ''DESC''
   \<and> extract_limit (init None) ''hello'' = []
   \<and> generate_sql_rule_based (init None) ''hello'' = Inl (NameError ''metric'')
   \<and> generate_sql_rule_based (init None) ''hello'' \<noteq>
       Inr (''SELECT '' @ [CHR 0x27] @ ''Total'' @ [CHR 0x27]
            @ '' as period, SUM(s.total_amount) AS total FROM sales s ORDER BY total DESC'')"
  by code_simp

section \<open>The WHERE clause\<close>

lemma where_clause_of_form:
  "where_clause_of t cs =
     (if t = [] \<and> cs = [] then []
      else ''WHERE '' @ join '' AND '' ((if t = [] then [] else [t]) @ cs))"
  by (simp add: where_clause_of_def Let_def)


text \<open>
  C5 holds of the clause the method computes and fails of its result: on the valid
  question \<open>sales today more than 5\<close> the WHERE clause is computed, with the time
  condition first, and then the method raises \<^verbatim>\<open>NameError\<close> on the name \<^verbatim>\<open>metric\<close>
  before any SQL text is assembled.
\<close>

theorem C5_where_clause_never_assembled:
  "generate_sql_rule_based (init key) ''sales today more than 5'' = Inl (NameError ''metric'')
   \<and> where_clause_of (extract_time_condition (init key) ''sales today more than 5'')
        (extract_comparison (init key) ''sales today more than 5'') =
       ''WHERE date(s.date) = date('' @ [CHR 0x27] @ ''now'' @ [CHR 0x27]
         @ '') AND s.total_amount > 5''"
  by code_simp

section \<open>Two runs of the pipeline\<close>

section \<open>The time condition\<close>

lemma time_loop_filter:
  "time_loop ps l acc = acc @ map snd (filter (\<lambda>(k, p). contains k l) ps)"
  by (induction ps arbitrary: acc) auto

lemma join_eq_Nil:
  "\<forall>x \<in> set xs. x \<noteq> [] \<Longrightarrow> join sep xs = [] \<longleftrightarrow> xs = []"
  by (cases "(sep, xs)" rule: join.cases) auto

lemma between_condition_nonempty: "between_condition m \<noteq> []" "[] \<noteq> between_condition m"
  by (simp_all add: between_condition_def)

lemma time_patterns_keys:
  "map fst (time_patterns (init key)) =
     [''today'', ''yesterday'', ''this week'', ''last week'', ''this month'', ''last month'',
      ''this year'', ''last year'']"
  by (simp add: init_def)

lemma time_patterns_nonempty: "\<forall>(k, p) \<in> set (time_patterns (init key)). p \<noteq> []"
  by (simp add: init_def)

lemma time_condition_join:
  "extract_time_condition (init key) q =
     join '' AND ''
       (map snd (filter (\<lambda>(k, p). contains k (str_lower q)) (time_patterns (init key)))
        @ (case re_search date_range_pattern (str_lower q) of
             None \<Rightarrow> []
           | Some m \<Rightarrow> [between_condition m]))
   \<and> map fst (time_patterns (init key)) =
       [''today'', ''yesterday'', ''this week'', ''last week'', ''this month'', ''last month'',
        ''this year'', ''last year'']
   \<and> (extract_time_condition (init key) q = [] \<longleftrightarrow>
        (\<forall>k \<in> set (map fst (time_patterns (init key))). \<not> contains k (str_lower q))
        \<and> re_search date_range_pattern (str_lower q) = None)"
proof -
  let ?l = "str_lower q"
  let ?named = "map snd (filter (\<lambda>(k, p). contains k ?l) (time_patterns (init key)))"
  let ?range = "case re_search date_range_pattern ?l of None \<Rightarrow> [] | Some m \<Rightarrow> [between_condition m]"
  have eq: "extract_time_condition (init key) q = join '' AND '' (?named @ ?range)"
    by (cases "?named @ ?range")
       (auto simp: extract_time_condition_def Let_def time_loop_filter split: option.splits)
  have ne: "\<forall>x \<in> set (?named @ ?range). x \<noteq> []"
    using time_patterns_nonempty [of key]
    by (auto simp: between_condition_nonempty split: option.splits)
  have "join '' AND '' (?named @ ?range) = [] \<longleftrightarrow> ?named @ ?range = []"
    using ne by (rule join_eq_Nil)
  also have "\<dots> \<longleftrightarrow> (\<forall>k \<in> set (map fst (time_patterns (init key))). \<not> contains k ?l)
        \<and> re_search date_range_pattern ?l = None"
    by (auto simp: filter_empty_conv split: option.splits)
  finally show ?thesis using eq time_patterns_keys by simp
qed

lemma is_date_parts:
  assumes "length y = 4" "length m = 2" "length dd = 2"
    "list_all is_digit y" "list_all is_digit m" "list_all is_digit dd"
  shows "is_date (y @ CHR ''-'' # m @ CHR ''-'' # dd)"
  using assms by (simp add: is_date_def nth_append)

lemma is_date_split:
  assumes "is_date d"
  shows "\<exists>y m dd. d = y @ CHR ''-'' # m @ CHR ''-'' # dd \<and> length y = 4 \<and> length m = 2
           \<and> length dd = 2 \<and> list_all is_digit y \<and> list_all is_digit m \<and> list_all is_digit dd"
proof -
  from assms have len: "length d = 10" and h1: "d ! 4 = CHR ''-''" and h2: "d ! 7 = CHR ''-''"
    and dg: "list_all is_digit (take 4 d)" "list_all is_digit (take 2 (drop 5 d))"
      "list_all is_digit (drop 8 d)"
    by (simp_all add: is_date_def)
  have a: "d = take 4 d @ drop 4 d" by simp
  have b: "drop 4 d = d ! 4 # drop 5 d" using len by (simp add: Cons_nth_drop_Suc [symmetric])
  have "take 2 (drop 5 d) @ drop 2 (drop 5 d) = drop 5 d" by (rule append_take_drop_id)
  moreover have "drop 2 (drop 5 d) = drop 7 d" by simp
  ultimately have c: "drop 5 d = take 2 (drop 5 d) @ drop 7 d" by simp
  have e: "drop 7 d = d ! 7 # drop 8 d" using len by (simp add: Cons_nth_drop_Suc [symmetric])
  have "d = take 4 d @ CHR ''-'' # take 2 (drop 5 d) @ CHR ''-'' # drop 8 d"
    using a b c e h1 h2 by metis
  moreover have "length (take 4 d) = 4" "length (take 2 (drop 5 d)) = 2" "length (drop 8 d) = 2"
    using len by simp_all
  ultimately show ?thesis using dg by blast
qed

lemma run_rep_sym:
  "st' \<in> set (run (rep n (Sym cl)) st) \<Longrightarrow>
     \<exists>xs. length xs = n \<and> list_all (accepts cl) xs \<and> fst st = xs @ fst st' \<and> snd st' = snd st"
proof (induction n arbitrary: st)
  case 0
  then show ?case by simp
next
  case (Suc n)
  from Suc.prems obtain m where m: "m \<in> set (run (Sym cl) st)"
    and r: "st' \<in> set (run (rep n (Sym cl)) m)"
    unfolding rep.simps in_run_Seq by blast
  from run_sym [OF m] obtain x where x: "fst st = x # fst m" "accepts cl x" "snd m = snd st"
    by auto
  from Suc.IH [OF r] obtain ys where ys: "length ys = n" "list_all (accepts cl) ys"
    "fst m = ys @ fst st'" "snd st' = snd m" by auto
  from x ys have "length (x # ys) = Suc n \<and> list_all (accepts cl) (x # ys)
      \<and> fst st = (x # ys) @ fst st' \<and> snd st' = snd st"
    by simp
  then show ?case by blast
qed

lemma run_sym_in: "accepts cl x \<Longrightarrow> (rest, gs) \<in> set (run (Sym cl) (x # rest, gs))"
  by simp

lemma run_rep_sym_in:
  "length xs = n \<Longrightarrow> list_all (accepts cl) xs \<Longrightarrow>
     (rest, gs) \<in> set (run (rep n (Sym cl)) (xs @ rest, gs))"
proof (induction xs arbitrary: n)
  case Nil
  then show ?case by simp
next
  case (Cons x xs)
  then obtain k where k: "n = Suc k" "length xs = k" by (cases n) auto
  from Cons.prems have "(xs @ rest, gs) \<in> set (run (Sym cl) ((x # xs) @ rest, gs))"
    by (simp add: run_sym_in)
  moreover from Cons.IH [OF k(2)] Cons.prems
  have "(rest, gs) \<in> set (run (rep k (Sym cl)) (xs @ rest, gs))" by simp
  ultimately show ?case unfolding k(1) rep.simps in_run_Seq by blast
qed

lemma star_greedy_self: "st \<in> set (star_greedy f k st)"
  by (cases k) simp_all

lemma star_greedy_in:
  assumes f: "\<And>x rest gs. P x \<Longrightarrow> (rest, gs) \<in> set (f (x # rest, gs))"
  shows "list_all P xs \<Longrightarrow> length xs \<le> k \<Longrightarrow>
     (rest, gs) \<in> set (star_greedy f k (xs @ rest, gs))"
proof (induction xs arbitrary: k)
  case Nil
  then show ?case by (simp add: star_greedy_self)
next
  case (Cons x xs)
  then obtain j where j: "k = Suc j" "length xs \<le> j" by (cases k) auto
  from Cons.prems have "(xs @ rest, gs) \<in> set (f (x # xs @ rest, gs))" by (simp add: f)
  moreover from Cons.IH [OF _ j(2)] Cons.prems
  have "(rest, gs) \<in> set (star_greedy f j (xs @ rest, gs))" by simp
  ultimately have "\<exists>m \<in> set (f (x # xs @ rest, gs)).
      length (fst m) < length (fst (x # xs @ rest, gs)) \<and> (rest, gs) \<in> set (star_greedy f j m)"
    by force
  then show ?case unfolding j(1) by (auto simp del: star_greedy.simps(1))
qed

lemma run_rep1_sym_in:
  assumes "xs \<noteq> []" "list_all (accepts cl) xs"
  shows "(rest, gs) \<in> set (run (rep1 (Sym cl)) (xs @ rest, gs))"
proof -
  from assms obtain x ys where xs: "xs = x # ys" by (cases xs) auto
  with assms have x: "accepts cl x" and ys: "list_all (accepts cl) ys" by simp_all
  have 1: "(ys @ rest, gs) \<in> set (run (Sym cl) (xs @ rest, gs))"
    unfolding xs using x by (simp add: run_sym_in)
  have "(rest, gs) \<in> set (star_greedy (run (Sym cl)) (length (ys @ rest)) (ys @ rest, gs))"
    by (rule star_greedy_in [where P = "accepts cl"]) (simp_all add: ys)
  then have 2: "(rest, gs) \<in> set (run (Star (Sym cl)) (ys @ rest, gs))"
    by (simp only: run.simps fst_conv)
  from 1 2 show ?thesis unfolding rep1_def in_run_Seq by blast
qed

lemma run_lit_in: "(rest, gs) \<in> set (run (lit w) (w @ rest, gs))"
  by (simp add: run_lit)

lemma in_run_lit: "st' \<in> set (run (lit w) st) \<Longrightarrow> fst st = w @ fst st' \<and> snd st' = snd st"
  by (auto simp: run_lit prefix_def split: if_splits)

lemma in_run_SeqI:
  "m \<in> set (run a st) \<Longrightarrow> st' \<in> set (run b m) \<Longrightarrow> st' \<in> set (run (Seq a b) st)"
  unfolding in_run_Seq by blast

lemma in_run_SeqE:
  assumes "st' \<in> set (run (Seq a b) st)"
  obtains m where "m \<in> set (run a st)" "st' \<in> set (run b m)"
  using assms unfolding in_run_Seq by blast

lemma in_run_GroupI:
  "(rest', gs') \<in> set (run a (d @ rest', gs)) \<Longrightarrow>
     (rest', gs'(n \<mapsto> d)) \<in> set (run (Group n a) (d @ rest', gs))"
  unfolding in_run_Group by force

lemma run_date_re:
  assumes "st' \<in> set (run date_re st)"
  shows "\<exists>d. is_date d \<and> fst st = d @ fst st' \<and> snd st' = snd st"
proof -
  from assms have "st' \<in> set (run (Seq (rep 4 (Sym Digit)) (Seq (Sym (Lit CHR ''-''))
      (Seq (rep 2 (Sym Digit)) (Seq (Sym (Lit CHR ''-'')) (Seq (rep 2 (Sym Digit)) Eps))))) st)"
    by (simp only: date_re_def seqs.simps)
  then obtain s1 s2 s3 s4 s5 where s1: "s1 \<in> set (run (rep 4 (Sym Digit)) st)"
    and s2: "s2 \<in> set (run (Sym (Lit CHR ''-'')) s1)"
    and s3: "s3 \<in> set (run (rep 2 (Sym Digit)) s2)"
    and s4: "s4 \<in> set (run (Sym (Lit CHR ''-'')) s3)"
    and s5: "s5 \<in> set (run (rep 2 (Sym Digit)) s4)"
    and s6: "st' \<in> set (run Eps s5)"
    by (elim in_run_SeqE) blast
  from s6 have e: "st' = s5" by simp
  from run_rep_sym [OF s1] obtain y where y: "length y = 4" "list_all (accepts Digit) y"
    "fst st = y @ fst s1" "snd s1 = snd st" by auto
  from run_sym [OF s2] have h1: "fst s1 = CHR ''-'' # fst s2" "snd s2 = snd s1" by auto
  from run_rep_sym [OF s3] obtain m where m: "length m = 2" "list_all (accepts Digit) m"
    "fst s2 = m @ fst s3" "snd s3 = snd s2" by auto
  from run_sym [OF s4] have h2: "fst s3 = CHR ''-'' # fst s4" "snd s4 = snd s3" by auto
  from run_rep_sym [OF s5] obtain dd where dd: "length dd = 2" "list_all (accepts Digit) dd"
    "fst s4 = dd @ fst s5" "snd s5 = snd s4" by auto
  have dg: "list_all is_digit y" "list_all is_digit m" "list_all is_digit dd"
    using y(2) m(2) dd(2) by (simp_all add: list_all_iff)
  have "is_date (y @ CHR ''-'' # m @ CHR ''-'' # dd)"
    using y(1) m(1) dd(1) dg by (rule is_date_parts)
  moreover have "fst st = (y @ CHR ''-'' # m @ CHR ''-'' # dd) @ fst st'"
    by (simp add: y(3) h1(1) m(3) h2(1) dd(3) e)
  moreover have "snd st' = snd st"
    by (simp add: e dd(4) h2(2) m(4) h1(2) y(4))
  ultimately show ?thesis by blast
qed

lemma run_date_re_in:
  assumes "is_date d"
  shows "(rest, gs) \<in> set (run date_re (d @ rest, gs))"
proof -
  from is_date_split [OF assms] obtain y m dd where d: "d = y @ CHR ''-'' # m @ CHR ''-'' # dd"
    and l: "length y = 4" "length m = 2" "length dd = 2"
    and g: "list_all is_digit y" "list_all is_digit m" "list_all is_digit dd"
    by blast
  have g': "list_all (accepts Digit) y" "list_all (accepts Digit) m" "list_all (accepts Digit) dd"
    using g by (simp_all add: list_all_iff)
  have 5: "(rest, gs) \<in> set (run (Seq (rep 2 (Sym Digit)) Eps) (dd @ rest, gs))"
    by (rule in_run_SeqI [OF run_rep_sym_in [OF l(3) g'(3)]]) simp
  have 4: "(rest, gs) \<in> set (run (Seq (Sym (Lit CHR ''-'')) (Seq (rep 2 (Sym Digit)) Eps))
      (CHR ''-'' # dd @ rest, gs))"
    by (rule in_run_SeqI [OF _ 5]) simp
  have 3: "(rest, gs) \<in> set (run (Seq (rep 2 (Sym Digit)) (Seq (Sym (Lit CHR ''-''))
      (Seq (rep 2 (Sym Digit)) Eps))) (m @ CHR ''-'' # dd @ rest, gs))"
    by (rule in_run_SeqI [OF run_rep_sym_in [OF l(2) g'(2)] 4])
  have 2: "(rest, gs) \<in> set (run (Seq (Sym (Lit CHR ''-'')) (Seq (rep 2 (Sym Digit))
      (Seq (Sym (Lit CHR ''-'')) (Seq (rep 2 (Sym Digit)) Eps))))
      (CHR ''-'' # m @ CHR ''-'' # dd @ rest, gs))"
    by (rule in_run_SeqI [OF _ 3]) simp
  have 1: "(rest, gs) \<in> set (run (Seq (rep 4 (Sym Digit)) (Seq (Sym (Lit CHR ''-''))
      (Seq (rep 2 (Sym Digit)) (Seq (Sym (Lit CHR ''-'')) (Seq (rep 2 (Sym Digit)) Eps)))))
      (y @ CHR ''-'' # m @ CHR ''-'' # dd @ rest, gs))"
    by (rule in_run_SeqI [OF run_rep_sym_in [OF l(1) g'(1)] 2])
  then show ?thesis by (simp only: date_re_def seqs.simps d append.simps append_assoc)
qed

lemma in_run_Group_text:
  assumes "st' \<in> set (run (Group n a) st)"
    and "\<And>m. m \<in> set (run a st) \<Longrightarrow> \<exists>d. P d \<and> fst st = d @ fst m \<and> snd m = snd st"
  shows "\<exists>d. P d \<and> fst st = d @ fst st' \<and> snd st' = (snd st)(n \<mapsto> d)"
proof -
  from assms(1) obtain m where m: "m \<in> set (run a st)"
    and st': "st' = (fst m, (snd m)(n \<mapsto> take (length (fst st) - length (fst m)) (fst st)))"
    unfolding in_run_Group by blast
  from assms(2) [OF m] obtain d where d: "P d" "fst st = d @ fst m" "snd m = snd st" by blast
  have "take (length (fst st) - length (fst m)) (fst st) = d" by (simp add: d(2))
  with st' d show ?thesis by auto
qed

lemma run_date_range:
  assumes "st' \<in> set (run date_range_pattern st)"
  shows "\<exists>w1 d1 w2 w3 d2.
           w1 \<noteq> [] \<and> list_all is_space w1 \<and> w2 \<noteq> [] \<and> list_all is_space w2
           \<and> w3 \<noteq> [] \<and> list_all is_space w3 \<and> is_date d1 \<and> is_date d2
           \<and> fst st = ''between'' @ w1 @ d1 @ w2 @ ''and'' @ w3 @ d2 @ fst st'
           \<and> snd st' = (snd st)(1 \<mapsto> d1, 2 \<mapsto> d2)"
proof -
  from assms have "st' \<in> set (run (Seq (lit ''between'') (Seq (rep1 (Sym Space))
      (Seq (Group 1 date_re) (Seq (rep1 (Sym Space)) (Seq (lit ''and'')
      (Seq (rep1 (Sym Space)) (Seq (Group 2 date_re) Eps))))))) st)"
    by (simp only: date_range_pattern_def seqs.simps)
  then obtain s1 s2 s3 s4 s5 s6 s7 where s1: "s1 \<in> set (run (lit ''between'') st)"
    and s2: "s2 \<in> set (run (rep1 (Sym Space)) s1)"
    and s3: "s3 \<in> set (run (Group 1 date_re) s2)"
    and s4: "s4 \<in> set (run (rep1 (Sym Space)) s3)"
    and s5: "s5 \<in> set (run (lit ''and'') s4)"
    and s6: "s6 \<in> set (run (rep1 (Sym Space)) s5)"
    and s7: "s7 \<in> set (run (Group 2 date_re) s6)"
    and s8: "st' \<in> set (run Eps s7)"
    by (elim in_run_SeqE) blast
  from s8 have e: "st' = s7" by simp
  from in_run_lit [OF s1] have a: "fst st = ''between'' @ fst s1" "snd s1 = snd st" by auto
  from run_rep1_sym [OF s2] obtain w1 where w1: "w1 \<noteq> []" "fst s1 = w1 @ fst s2"
    "list_all (accepts Space) w1" "snd s2 = snd s1" by auto
  from in_run_Group_text [OF s3, of is_date] run_date_re
  obtain d1 where d1: "is_date d1" "fst s2 = d1 @ fst s3" "snd s3 = (snd s2)(1 \<mapsto> d1)" by blast
  from run_rep1_sym [OF s4] obtain w2 where w2: "w2 \<noteq> []" "fst s3 = w2 @ fst s4"
    "list_all (accepts Space) w2" "snd s4 = snd s3" by auto
  from in_run_lit [OF s5] have b: "fst s4 = ''and'' @ fst s5" "snd s5 = snd s4" by auto
  from run_rep1_sym [OF s6] obtain w3 where w3: "w3 \<noteq> []" "fst s5 = w3 @ fst s6"
    "list_all (accepts Space) w3" "snd s6 = snd s5" by auto
  from in_run_Group_text [OF s7, of is_date] run_date_re
  obtain d2 where d2: "is_date d2" "fst s6 = d2 @ fst s7" "snd s7 = (snd s6)(2 \<mapsto> d2)" by blast
  have sp: "list_all is_space w1" "list_all is_space w2" "list_all is_space w3"
    using w1(3) w2(3) w3(3) by (simp_all add: list_all_iff)
  have tx: "fst st = ''between'' @ w1 @ d1 @ w2 @ ''and'' @ w3 @ d2 @ fst st'"
    by (simp add: a(1) w1(2) d1(2) w2(2) b(1) w3(2) d2(2) e)
  have gr: "snd st' = (snd st)(1 \<mapsto> d1, 2 \<mapsto> d2)"
    by (simp add: e d2(3) w3(4) b(2) w2(4) d1(3) w1(4) a(2))
  from w1(1) w2(1) w3(1) sp d1(1) d2(1) tx gr show ?thesis by blast
qed

lemma run_date_range_in:
  assumes "w1 \<noteq> []" "list_all is_space w1" "w2 \<noteq> []" "list_all is_space w2"
    "w3 \<noteq> []" "list_all is_space w3" "is_date d1" "is_date d2"
  shows "(rest, gs(1 \<mapsto> d1, 2 \<mapsto> d2)) \<in>
     set (run date_range_pattern (''between'' @ w1 @ d1 @ w2 @ ''and'' @ w3 @ d2 @ rest, gs))"
proof -
  have sp: "list_all (accepts Space) w1" "list_all (accepts Space) w2" "list_all (accepts Space) w3"
    using assms(2,4,6) by (simp_all add: list_all_iff)
  let ?g1 = "gs(1 \<mapsto> d1)"
  let ?g2 = "gs(1 \<mapsto> d1, 2 \<mapsto> d2)"
  have 7: "(rest, ?g2) \<in> set (run (Seq (Group 2 date_re) Eps) (d2 @ rest, ?g1))"
    by (rule in_run_SeqI [OF in_run_GroupI [OF run_date_re_in [OF assms(8)]]]) simp
  have 6: "(rest, ?g2) \<in> set (run (Seq (rep1 (Sym Space)) (Seq (Group 2 date_re) Eps))
      (w3 @ d2 @ rest, ?g1))"
    by (rule in_run_SeqI [OF run_rep1_sym_in [OF assms(5) sp(3)] 7])
  have 5: "(rest, ?g2) \<in> set (run (Seq (lit ''and'') (Seq (rep1 (Sym Space))
      (Seq (Group 2 date_re) Eps))) (''and'' @ w3 @ d2 @ rest, ?g1))"
    by (rule in_run_SeqI [OF run_lit_in 6])
  have 4: "(rest, ?g2) \<in> set (run (Seq (rep1 (Sym Space)) (Seq (lit ''and'')
      (Seq (rep1 (Sym Space)) (Seq (Group 2 date_re) Eps))))
      (w2 @ ''and'' @ w3 @ d2 @ rest, ?g1))"
    by (rule in_run_SeqI [OF run_rep1_sym_in [OF assms(3) sp(2)] 5])
  have 3: "(rest, ?g2) \<in> set (run (Seq (Group 1 date_re) (Seq (rep1 (Sym Space))
      (Seq (lit ''and'') (Seq (rep1 (Sym Space)) (Seq (Group 2 date_re) Eps)))))
      (d1 @ w2 @ ''and'' @ w3 @ d2 @ rest, gs))"
    by (rule in_run_SeqI [OF in_run_GroupI [OF run_date_re_in [OF assms(7)]] 4])
  have 2: "(rest, ?g2) \<in> set (run (Seq (rep1 (Sym Space)) (Seq (Group 1 date_re)
      (Seq (rep1 (Sym Space)) (Seq (lit ''and'') (Seq (rep1 (Sym Space))
      (Seq (Group 2 date_re) Eps))))))
      (w1 @ d1 @ w2 @ ''and'' @ w3 @ d2 @ rest, gs))"
    by (rule in_run_SeqI [OF run_rep1_sym_in [OF assms(1) sp(1)] 3])
  have 1: "(rest, ?g2) \<in> set (run (Seq (lit ''between'') (Seq (rep1 (Sym Space))
      (Seq (Group 1 date_re) (Seq (rep1 (Sym Space)) (Seq (lit ''and'')
      (Seq (rep1 (Sym Space)) (Seq (Group 2 date_re) Eps)))))))
      (''between'' @ w1 @ d1 @ w2 @ ''and'' @ w3 @ d2 @ rest, gs))"
    by (rule in_run_SeqI [OF run_lit_in 2])
  then show ?thesis by (simp only: date_range_pattern_def seqs.simps)
qed

lemma search_from_Some:
  "suffix suf s \<Longrightarrow> run r (suf, Map.empty) \<noteq> [] \<Longrightarrow> search_from r pos s \<noteq> None"
proof (induction s arbitrary: pos)
  case Nil
  then show ?case by (auto split: list.splits)
next
  case (Cons c cs)
  show ?case
  proof (cases "run r (c # cs, Map.empty)")
    case Nil
    with Cons.prems have "suf \<noteq> c # cs" by auto
    with Cons.prems(1) have "suffix suf cs" by (auto simp: suffix_Cons)
    from Cons.IH [OF this Cons.prems(2)] Nil show ?thesis by simp
  next
    case (Cons st sts)
    then show ?thesis by simp
  qed
qed

lemma re_search_date_range_sound:
  assumes "re_search date_range_pattern s = Some m"
  shows "\<exists>w1 d1 w2 w3 d2.
           w1 \<noteq> [] \<and> list_all is_space w1 \<and> w2 \<noteq> [] \<and> list_all is_space w2
           \<and> w3 \<noteq> [] \<and> list_all is_space w3 \<and> is_date d1 \<and> is_date d2
           \<and> contains (''between'' @ w1 @ d1 @ w2 @ ''and'' @ w3 @ d2) s
           \<and> between_condition m =
               ''s.date BETWEEN '' @ [CHR 0x27] @ d1 @ [CHR 0x27] @ '' AND '' @ [CHR 0x27] @ d2
                 @ [CHR 0x27]"
proof -
  from assms obtain suf st where suf: "suffix suf s"
    and st: "st \<in> set (run date_range_pattern (suf, Map.empty))" and g: "m_groups m = snd st"
    unfolding re_search_def using search_from_run by blast
  from run_date_range [OF st] obtain w1 d1 w2 w3 d2 where
    f: "w1 \<noteq> []" "list_all is_space w1" "w2 \<noteq> []" "list_all is_space w2"
       "w3 \<noteq> []" "list_all is_space w3" "is_date d1" "is_date d2"
    and tx: "suf = ''between'' @ w1 @ d1 @ w2 @ ''and'' @ w3 @ d2 @ fst st"
    and gr: "snd st = Map.empty(1 \<mapsto> d1, 2 \<mapsto> d2)"
    by auto
  from suf tx have "suffix ((''between'' @ w1 @ d1 @ w2 @ ''and'' @ w3 @ d2) @ fst st) s" by simp
  then have c: "contains (''between'' @ w1 @ d1 @ w2 @ ''and'' @ w3 @ d2) s"
    by (rule suffix_contains)
  from g gr have "group_str m 1 = d1" "group_str m 2 = d2" by (simp_all add: group_str_def)
  then have b: "between_condition m =
               ''s.date BETWEEN '' @ [CHR 0x27] @ d1 @ [CHR 0x27] @ '' AND '' @ [CHR 0x27] @ d2
                 @ [CHR 0x27]"
    by (simp add: between_condition_def)
  from f c b show ?thesis by blast
qed

lemma re_search_date_range_complete:
  assumes "w1 \<noteq> []" "list_all is_space w1" "w2 \<noteq> []" "list_all is_space w2"
    "w3 \<noteq> []" "list_all is_space w3" "is_date d1" "is_date d2"
    and "contains (''between'' @ w1 @ d1 @ w2 @ ''and'' @ w3 @ d2) s"
  shows "re_search date_range_pattern s \<noteq> None"
proof -
  from assms(9) obtain p r where s: "s = p @ (''between'' @ w1 @ d1 @ w2 @ ''and'' @ w3 @ d2) @ r"
    unfolding contains_iff_sublist sublist_def by blast
  let ?suf = "''between'' @ w1 @ d1 @ w2 @ ''and'' @ w3 @ d2 @ r"
  have "suffix ?suf s" unfolding s suffix_def by simp
  moreover have "run date_range_pattern (?suf, Map.empty) \<noteq> []"
    using run_date_range_in [OF assms(1-8), of r Map.empty] by auto
  ultimately show ?thesis unfolding re_search_def by (rule search_from_Some)
qed

lemma time_patterns_table:
  "time_patterns (init key) =
     [(''today'', ''date(s.date) = date('' @ [CHR 0x27] @ ''now'' @ [CHR 0x27] @ '')''),
      (''yesterday'', ''date(s.date) = date('' @ [CHR 0x27] @ ''now'' @ [CHR 0x27] @ '', ''
         @ [CHR 0x27] @ ''-1 day'' @ [CHR 0x27] @ '')''),
      (''this week'', ''strftime('' @ [CHR 0x27] @ ''%Y-%W'' @ [CHR 0x27] @ '', s.date) = strftime(''
         @ [CHR 0x27] @ ''%Y-%W'' @ [CHR 0x27] @ '', '' @ [CHR 0x27] @ ''now'' @ [CHR 0x27] @ '')''),
      (''last week'', ''strftime('' @ [CHR 0x27] @ ''%Y-%W'' @ [CHR 0x27] @ '', s.date) = strftime(''
         @ [CHR 0x27] @ ''%Y-%W'' @ [CHR 0x27] @ '', '' @ [CHR 0x27] @ ''now'' @ [CHR 0x27] @ '', ''
         @ [CHR 0x27] @ ''-7 days'' @ [CHR 0x27] @ '')''),
      (''this month'', ''strftime('' @ [CHR 0x27] @ ''%Y-%m'' @ [CHR 0x27] @ '', s.date) = strftime(''
         @ [CHR 0x27] @ ''%Y-%m'' @ [CHR 0x27] @ '', '' @ [CHR 0x27] @ ''now'' @ [CHR 0x27] @ '')''),
      (''last month'', ''strftime('' @ [CHR 0x27] @ ''%Y-%m'' @ [CHR 0x27] @ '', s.date) = strftime(''
         @ [CHR 0x27] @ ''%Y-%m'' @ [CHR 0x27] @ '', '' @ [CHR 0x27] @ ''now'' @ [CHR 0x27] @ '', ''
         @ [CHR 0x27] @ ''-1 month'' @ [CHR 0x27] @ '')''),
      (''this year'', ''strftime('' @ [CHR 0x27] @ ''%Y'' @ [CHR 0x27] @ '', s.date) = strftime(''
         @ [CHR 0x27] @ ''%Y'' @ [CHR 0x27] @ '', '' @ [CHR 0x27] @ ''now'' @ [CHR 0x27] @ '')''),
      (''last year'', ''strftime('' @ [CHR 0x27] @ ''%Y'' @ [CHR 0x27] @ '', s.date) = strftime(''
         @ [CHR 0x27] @ ''%Y'' @ [CHR 0x27] @ '', '' @ [CHR 0x27] @ ''now'' @ [CHR 0x27] @ '', ''
         @ [CHR 0x27] @ ''-1 year'' @ [CHR 0x27] @ '')'')]"
  by (simp add: init_def)

text \<open>
  C7: the time condition is the predicates of the period keywords that occur in the
  lower-cased question, in the order of the dictionary (today, yesterday, this week,
  last week, this month, last month, this year, last year, each with the predicate of
  the table), followed by the BETWEEN predicate when the date-range pattern matches,
  all joined by \<open>AND\<close>; it is the empty string exactly when no keyword occurs and the
  pattern does not match. A match of the pattern is an occurrence of \<open>between\<close>, a
  date \<open>YYYY-MM-DD\<close>, \<open>and\<close>, a date \<open>YYYY-MM-DD\<close>, separated by whitespace, and its
  predicate is \<open>s.date BETWEEN\<close> the first date \<open>AND\<close> the second, both quoted; and
  every question with such an occurrence is matched.
\<close>

theorem C7_time_condition:
  "extract_time_condition (init key) q =
     join '' AND ''
       (map snd (filter (\<lambda>(k, p). contains k (str_lower q)) (time_patterns (init key)))
        @ (case re_search date_range_pattern (str_lower q) of
             None \<Rightarrow> []
           | Some m \<Rightarrow> [between_condition m]))
   \<and> time_patterns (init key) =
     [(''today'', ''date(s.date) = date('' @ [CHR 0x27] @ ''now'' @ [CHR 0x27] @ '')''),
      (''yesterday'', ''date(s.date) = date('' @ [CHR 0x27] @ ''now'' @ [CHR 0x27] @ '', ''
         @ [CHR 0x27] @ ''-1 day'' @ [CHR 0x27] @ '')''),
      (''this week'', ''strftime('' @ [CHR 0x27] @ ''%Y-%W'' @ [CHR 0x27] @ '', s.date) = strftime(''
         @ [CHR 0x27] @ ''%Y-%W'' @ [CHR 0x27] @ '', '' @ [CHR 0x27] @ ''now'' @ [CHR 0x27] @ '')''),
      (''last week'', ''strftime('' @ [CHR 0x27] @ ''%Y-%W'' @ [CHR 0x27] @ '', s.date) = strftime(''
         @ [CHR 0x27] @ ''%Y-%W'' @ [CHR 0x27] @ '', '' @ [CHR 0x27] @ ''now'' @ [CHR 0x27] @ '', ''
         @ [CHR 0x27] @ ''-7 days'' @ [CHR 0x27] @ '')''),
      (''this month'', ''strftime('' @ [CHR 0x27] @ ''%Y-%m'' @ [CHR 0x27] @ '', s.date) = strftime(''
         @ [CHR 0x27] @ ''%Y-%m'' @ [CHR 0x27] @ '', '' @ [CHR 0x27] @ ''now'' @ [CHR 0x27] @ '')''),
      (''last month'', ''strftime('' @ [CHR 0x27] @ ''%Y-%m'' @ [CHR 0x27] @ '', s.date) = strftime(''
         @ [CHR 0x27] @ ''%Y-%m'' @ [CHR 0x27] @ '', '' @ [CHR 0x27] @ ''now'' @ [CHR 0x27] @ '', ''
         @ [CHR 0x27] @ ''-1 month'' @ [CHR 0x27] @ '')''),
      (''this year'', ''strftime('' @ [CHR 0x27] @ ''%Y'' @ [CHR 0x27] @ '', s.date) = strftime(''
         @ [CHR 0x27] @ ''%Y'' @ [CHR 0x27] @ '', '' @ [CHR 0x27] @ ''now'' @ [CHR 0x27] @ '')''),
      (''last year'', ''strftime('' @ [CHR 0x27] @ ''%Y'' @ [CHR 0x27] @ '', s.date) = strftime(''
         @ [CHR 0x27] @ ''%Y'' @ [CHR 0x27] @ '', '' @ [CHR 0x27] @ ''now'' @ [CHR 0x27] @ '', ''
         @ [CHR 0x27] @ ''-1 year'' @ [CHR 0x27] @ '')'')]
   \<and> (extract_time_condition (init key) q = [] \<longleftrightarrow>
        (\<forall>k \<in> set (map fst (time_patterns (init key))). \<not> contains k (str_lower q))
        \<and> re_search date_range_pattern (str_lower q) = None)
   \<and> (\<forall>m. re_search date_range_pattern (str_lower q) = Some m \<longrightarrow>
        (\<exists>w1 d1 w2 w3 d2.
           w1 \<noteq> [] \<and> list_all is_space w1 \<and> w2 \<noteq> [] \<and> list_all is_space w2
           \<and> w3 \<noteq> [] \<and> list_all is_space w3 \<and> is_date d1 \<and> is_date d2
           \<and> contains (''between'' @ w1 @ d1 @ w2 @ ''and'' @ w3 @ d2) (str_lower q)
           \<and> between_condition m =
               ''s.date BETWEEN '' @ [CHR 0x27] @ d1 @ [CHR 0x27] @ '' AND '' @ [CHR 0x27] @ d2
                 @ [CHR 0x27]))
   \<and> (\<forall>w1 d1 w2 w3 d2.
         w1 \<noteq> [] \<and> list_all is_space w1 \<and> w2 \<noteq> [] \<and> list_all is_space w2
         \<and> w3 \<noteq> [] \<and> list_all is_space w3 \<and> is_date d1 \<and> is_date d2
         \<and> contains (''between'' @ w1 @ d1 @ w2 @ ''and'' @ w3 @ d2) (str_lower q)
       \<longrightarrow> re_search date_range_pattern (str_lower q) \<noteq> None)"
proof (intro conjI allI impI)
  show "extract_time_condition (init key) q =
     join '' AND ''
       (map snd (filter (\<lambda>(k, p). contains k (str_lower q)) (time_patterns (init key)))
        @ (case re_search date_range_pattern (str_lower q) of
             None \<Rightarrow> []
           | Some m \<Rightarrow> [between_condition m]))"
    using time_condition_join [of key q] by (rule conjunct1)
next
  show "extract_time_condition (init key) q = [] \<longleftrightarrow>
        (\<forall>k \<in> set (map fst (time_patterns (init key))). \<not> contains k (str_lower q))
        \<and> re_search date_range_pattern (str_lower q) = None"
    using time_condition_join [of key q] by (elim conjE)
next
  fix m assume "re_search date_range_pattern (str_lower q) = Some m"
  then show "\<exists>w1 d1 w2 w3 d2.
           w1 \<noteq> [] \<and> list_all is_space w1 \<and> w2 \<noteq> [] \<and> list_all is_space w2
           \<and> w3 \<noteq> [] \<and> list_all is_space w3 \<and> is_date d1 \<and> is_date d2
           \<and> contains (''between'' @ w1 @ d1 @ w2 @ ''and'' @ w3 @ d2) (str_lower q)
           \<and> between_condition m =
               ''s.date BETWEEN '' @ [CHR 0x27] @ d1 @ [CHR 0x27] @ '' AND '' @ [CHR 0x27] @ d2
                 @ [CHR 0x27]"
    by (rule re_search_date_range_sound)
next
  fix w1 d1 w2 w3 d2
  assume "w1 \<noteq> [] \<and> list_all is_space w1 \<and> w2 \<noteq> [] \<and> list_all is_space w2
         \<and> w3 \<noteq> [] \<and> list_all is_space w3 \<and> is_date d1 \<and> is_date d2
         \<and> contains (''between'' @ w1 @ d1 @ w2 @ ''and'' @ w3 @ d2) (str_lower q)"
  then show "re_search date_range_pattern (str_lower q) \<noteq> None"
    using re_search_date_range_complete by blast
qed (rule time_patterns_table)

theorem C7_time_condition_witness:
  "extract_time_condition (init None) ''Sales Today between 2020-01-01 and 2020-02-01'' =
     ''date(s.date) = date('' @ [CHR 0x27] @ ''now'' @ [CHR 0x27] @ '') AND s.date BETWEEN ''
       @ [CHR 0x27] @ ''2020-01-01'' @ [CHR 0x27] @ '' AND '' @ [CHR 0x27] @ ''2020-02-01'' @ [CHR 0x27]
   \<and> extract_time_condition (init None) ''hello'' = []
   \<and> re_search date_range_pattern (str_lower ''Between 2020-01-01  and 2020-02-01'') \<noteq> None
   \<and> re_search date_range_pattern (str_lower ''between you and me'') = None"
proof -
  let ?q = "''Sales Today between 2020-01-01 and 2020-02-01''"
  note inst = C7_time_condition [of None ?q]
  have r: "join '' AND ''
       (map snd (filter (\<lambda>(k, p). contains k (str_lower ?q)) (time_patterns (init None)))
        @ (case re_search date_range_pattern (str_lower ?q) of
             None \<Rightarrow> []
           | Some m \<Rightarrow> [between_condition m])) =
     ''date(s.date) = date('' @ [CHR 0x27] @ ''now'' @ [CHR 0x27] @ '') AND s.date BETWEEN ''
       @ [CHR 0x27] @ ''2020-01-01'' @ [CHR 0x27] @ '' AND '' @ [CHR 0x27] @ ''2020-02-01'' @ [CHR 0x27]"
    by code_simp
  from inst [THEN conjunct1] r have 1: "extract_time_condition (init None) ?q =
     ''date(s.date) = date('' @ [CHR 0x27] @ ''now'' @ [CHR 0x27] @ '') AND s.date BETWEEN ''
       @ [CHR 0x27] @ ''2020-01-01'' @ [CHR 0x27] @ '' AND '' @ [CHR 0x27] @ ''2020-02-01'' @ [CHR 0x27]"
    by (rule trans)
  have h: "(\<forall>k \<in> set (map fst (time_patterns (init None))). \<not> contains k (str_lower ''hello''))
        \<and> re_search date_range_pattern (str_lower ''hello'') = None"
    by code_simp
  from C7_time_condition [of None "''hello''", THEN conjunct2, THEN conjunct2, THEN conjunct1] h
  have 2: "extract_time_condition (init None) ''hello'' = []" by (rule iffD2)
  have c: "[CHR '' '', CHR '' ''] \<noteq> [] \<and> list_all is_space [CHR '' '', CHR '' '']
         \<and> [CHR '' ''] \<noteq> [] \<and> list_all is_space [CHR '' '']
         \<and> [CHR '' ''] \<noteq> [] \<and> list_all is_space [CHR '' '']
         \<and> is_date ''2020-01-01'' \<and> is_date ''2020-02-01''
         \<and> contains (''between'' @ [CHR '' ''] @ ''2020-01-01'' @ [CHR '' '', CHR '' ''] @ ''and''
              @ [CHR '' ''] @ ''2020-02-01'') (str_lower ''Between 2020-01-01  and 2020-02-01'')"
    by code_simp
  from C7_time_condition [of None "''Between 2020-01-01  and 2020-02-01''",
      THEN conjunct2, THEN conjunct2, THEN conjunct2, THEN conjunct2, rule_format,
      of "[CHR '' '']" "[CHR '' '', CHR '' '']" "[CHR '' '']" "''2020-01-01''" "''2020-02-01''"] c
  have 3: "re_search date_range_pattern (str_lower ''Between 2020-01-01  and 2020-02-01'') \<noteq> None"
    by blast
  have 4: "re_search date_range_pattern (str_lower ''between you and me'') = None"
    by code_simp
  from 1 2 3 4 show ?thesis by (intro conjI)
qed

end
